theory Spec2Isabelle
  imports Complex_Main "HOL-Library.Multiset" "HOL-Library.Sublist" "HOL-Library.Product_Lexorder"
    "HOL-Library.AList"
begin

section \<open>Shared data: timestamps and errors\<close>

text \<open>
  Timestamps are Python floats in the source. They are modelled as rationals: exact
  arithmetic, no NaN and no infinities. The exceptions the modelled code can raise are
  the constructors of \<open>error\<close>.
\<close>

type_synonym timestamp = rat

datatype error = ValueError | IndexError | KeyError | FileNotFoundError | AttributeError | NameError
  | AssertionError | UnpicklingError | FormatError

section \<open>Binary search (\<open>np.searchsorted\<close>)\<close>

text \<open>
  \<open>np.searchsorted(arr, key)\<close> with the default \<open>side='left'\<close> is a library routine
  of numpy, not of this repository. It is modelled by the loop numpy runs for one key: a
  bisection between \<open>min_idx = 0\<close> and \<open>max_idx = len(arr)\<close> that moves \<open>min_idx\<close> past
  the middle element when that element is smaller than the key. The loop never checks that
  the array is sorted, so the model is defined on every list.
\<close>

function binsearch :: "timestamp list \<Rightarrow> timestamp \<Rightarrow> nat \<Rightarrow> nat \<Rightarrow> nat" where
  "binsearch arr key min_idx max_idx =
     (if min_idx < max_idx then
        (let mid_idx = min_idx + (max_idx - min_idx) div 2 in
         if arr ! mid_idx < key then binsearch arr key (mid_idx + 1) max_idx
         else binsearch arr key min_idx mid_idx)
      else min_idx)"
  by pat_completeness auto
termination
  by (relation "measure (\<lambda>(arr, key, min_idx, max_idx). max_idx - min_idx)") auto

declare binsearch.simps [simp del]

definition searchsorted :: "timestamp list \<Rightarrow> timestamp \<Rightarrow> nat" where
  "searchsorted arr key = binsearch arr key 0 (length arr)"

text \<open>Python's slice \<open>xs[i:j]\<close> for non-negative \<open>i\<close>, \<open>j\<close>: empty when \<open>j \<le> i\<close>,
  clipped at the end of the list.\<close>

definition slice :: "'a list \<Rightarrow> nat \<Rightarrow> nat \<Rightarrow> 'a list" where
  "slice xs i j = take (j - i) (drop i xs)"

section \<open>Bisector and Mutable\_Bisector\<close>

record 'a Bisector =
  data :: "'a list"
  data_ts :: "timestamp list"
  sorted_idc :: "nat list"

text \<open>
  \<open>np.argsort\<close> returns a permutation of the indices that sorts the array. numpy's default
  sort does not fix the order among equal timestamps; the model takes the stable one. The
  lemmas on lookups below are proved for every index state with sorted timestamps, so they
  do not depend on that choice.
\<close>

definition argsort :: "timestamp list \<Rightarrow> nat list" where
  "argsort ts = sort_key (\<lambda>i. ts ! i) [0..<length ts]"

definition Bisector_init :: "'a list \<Rightarrow> timestamp list \<Rightarrow> error + 'a Bisector" where
  "Bisector_init dat dat_ts =
     (if length dat \<noteq> length dat_ts then Inl ValueError
      else if dat = [] then Inr \<lparr>data = [], data_ts = [], sorted_idc = []\<rparr>
      else (let idc = argsort dat_ts in
            Inr \<lparr>data = map (\<lambda>i. dat ! i) idc,
                 data_ts = map (\<lambda>i. dat_ts ! i) idc,
                 sorted_idc = idc\<rparr>))"

text \<open>\<open>by_ts\<close>: both reads at \<open>found_index\<close> raise IndexError past the end of their
  array, which the method turns into ValueError.\<close>

definition by_ts :: "('a, 'm) Bisector_scheme \<Rightarrow> timestamp \<Rightarrow> error + 'a" where
  "by_ts b ts =
     (let found_index = searchsorted (data_ts b) ts in
      if found_index < length (data b) \<and> found_index < length (data_ts b) then
        (if data_ts b ! found_index = ts then Inr (data b ! found_index)
         else Inl ValueError)
      else Inl ValueError)"

definition start_stop_idc_for_window :: "('a, 'm) Bisector_scheme \<Rightarrow> timestamp \<times> timestamp \<Rightarrow> nat \<times> nat" where
  "start_stop_idc_for_window b ts_window =
     (searchsorted (data_ts b) (fst ts_window), searchsorted (data_ts b) (snd ts_window))"

definition by_ts_window :: "('a, 'm) Bisector_scheme \<Rightarrow> timestamp \<times> timestamp \<Rightarrow> 'a list" where
  "by_ts_window b ts_window =
     (let (start_idx, stop_idx) = start_stop_idc_for_window b ts_window
      in slice (data b) start_idx stop_idx)"

text \<open>\<open>Mutable_Bisector.insert\<close>: \<open>np.insert\<close> and \<open>list.insert\<close> both place the new
  element before position \<open>insert_idx\<close>.\<close>

definition list_insert :: "'a list \<Rightarrow> nat \<Rightarrow> 'a \<Rightarrow> 'a list" where
  "list_insert xs i x = take i xs @ x # drop i xs"

definition insert_datum :: "('a, 'm) Bisector_scheme \<Rightarrow> timestamp \<Rightarrow> 'a \<Rightarrow> ('a, 'm) Bisector_scheme" where
  "insert_datum b ts datum =
     (let insert_idx = searchsorted (data_ts b) ts in
      b\<lparr>data_ts := list_insert (data_ts b) insert_idx ts,
        data := list_insert (data b) insert_idx datum\<rparr>)"

text \<open>The invariant of the spec's data model: parallel arrays of equal length, timestamps
  ascending.\<close>

definition bisector_inv :: "('a, 'm) Bisector_scheme \<Rightarrow> bool" where
  "bisector_inv b \<longleftrightarrow> length (data_ts b) = length (data b) \<and> sorted (data_ts b)"

section \<open>Affiliator\<close>

text \<open>
  \<open>Affiliator\<close> extends \<open>Bisector\<close> with a stop array. Its constructor sorts data and
  start timestamps by start (the inherited constructor) and reorders \<open>stop_ts\<close> by the same
  index permutation; numpy's index read raises IndexError when \<open>stop_ts\<close> is too short.
  Nothing orders the stop array itself.
\<close>

record 'a Affiliator = "'a Bisector" +
  stop_ts :: "timestamp list"

definition Affiliator_init ::
  "'a list \<Rightarrow> timestamp list \<Rightarrow> timestamp list \<Rightarrow> error + 'a Affiliator" where
  "Affiliator_init dat start_ts stop_ts0 =
     (case Bisector_init dat start_ts of
        Inl e \<Rightarrow> Inl e
      | Inr b \<Rightarrow>
          if \<exists>i\<in>set (sorted_idc b). length stop_ts0 \<le> i then Inl IndexError
          else Inr \<lparr>data = data b, data_ts = data_ts b, sorted_idc = sorted_idc b,
                    stop_ts = map (\<lambda>i. stop_ts0 ! i) (sorted_idc b)\<rparr>)"

text \<open>The overriding \<open>_start_stop_idc_for_window\<close>: the start position is searched in the
  stop array, the stop position in the start array. \<open>by_ts_window\<close> and
  \<open>init_dict_for_window\<close> slice with these positions.\<close>

definition Affiliator_start_stop_idc_for_window ::
  "('a, 'm) Affiliator_scheme \<Rightarrow> timestamp \<times> timestamp \<Rightarrow> nat \<times> nat" where
  "Affiliator_start_stop_idc_for_window A ts_window =
     (let start_idx = searchsorted (stop_ts A) (fst ts_window);
          stop_idx = searchsorted (data_ts A) (snd ts_window)
      in (start_idx, stop_idx))"

definition Affiliator_by_ts_window ::
  "('a, 'm) Affiliator_scheme \<Rightarrow> timestamp \<times> timestamp \<Rightarrow> 'a list" where
  "Affiliator_by_ts_window A ts_window =
     (let (start_idx, stop_idx) = Affiliator_start_stop_idc_for_window A ts_window
      in slice (data A) start_idx stop_idx)"

definition Affiliator_init_dict_for_window ::
  "('a, 'm) Affiliator_scheme \<Rightarrow> timestamp \<times> timestamp \<Rightarrow> 'a list \<times> timestamp list \<times> timestamp list" where
  "Affiliator_init_dict_for_window A ts_window =
     (let (start_idx, stop_idx) = Affiliator_start_stop_idc_for_window A ts_window
      in (slice (data A) start_idx stop_idx,
          slice (data_ts A) start_idx stop_idx,
          slice (stop_ts A) start_idx stop_idx))"

text \<open>The intervals of an index, as (datum, start, stop) triples in index order.\<close>

definition intervals :: "('a, 'm) Affiliator_scheme \<Rightarrow> ('a \<times> timestamp \<times> timestamp) list" where
  "intervals A = zip (data A) (zip (data_ts A) (stop_ts A))"

section \<open>correlate\_data\<close>

text \<open>
  A datum is a dict with at least the key \<open>"timestamp"\<close>; the rest of the dict is the
  payload. \<open>correlate_data\<close> sorts the caller's list in place (Python's \<open>list.sort\<close> is
  stable), copies \<open>timestamps\<close>, and runs the loop below. The \<open>try\<close> block reads
  \<open>data[data_index]\<close> and \<open>timestamps[frame_idx + 1]\<close>; either read past the end raises
  IndexError, which leaves the loop.
\<close>

record 'a datum =
  timestamp :: timestamp
  payload :: 'a

function correlate_loop ::
  "'a datum list \<Rightarrow> timestamp list \<Rightarrow> nat \<Rightarrow> nat \<Rightarrow> 'a datum list list \<Rightarrow> 'a datum list list" where
  "correlate_loop dat timestamps frame_idx data_index data_by_frame =
     (if data_index < length dat \<and> frame_idx + 1 < length timestamps then
        (let datum = dat ! data_index;
             ts = (timestamps ! frame_idx + timestamps ! (frame_idx + 1)) / 2
         in if timestamp datum \<le> ts then
              correlate_loop dat timestamps frame_idx (data_index + 1)
                (data_by_frame[frame_idx := data_by_frame ! frame_idx @ [datum]])
            else correlate_loop dat timestamps (frame_idx + 1) data_index data_by_frame)
      else data_by_frame)"
  by pat_completeness auto
termination
  by (relation "measure (\<lambda>(dat, timestamps, frame_idx, data_index, data_by_frame).
        (length dat - data_index) + (length timestamps - frame_idx))") auto

declare correlate_loop.simps [simp del]

text \<open>The result of a call: the returned buckets, and the two argument objects as the
  caller finds them afterwards.\<close>

record 'a correlate_result =
  data_by_frame :: "'a datum list list"
  data_after :: "'a datum list"
  timestamps_after :: "timestamp list"

definition correlate_data :: "'a datum list \<Rightarrow> timestamp list \<Rightarrow> 'a correlate_result" where
  "correlate_data dat timestamps0 =
     (let timestamps = timestamps0;
          empty_frames = map (\<lambda>i. []) timestamps;
          dat' = sort_key timestamp dat
      in \<lparr>data_by_frame = correlate_loop dat' timestamps 0 0 empty_frames,
          data_after = dat',
          timestamps_after = timestamps0\<rparr>)"

text \<open>The midpoint the loop compares with at frame \<open>f\<close>.\<close>

definition midpoint :: "timestamp list \<Rightarrow> nat \<Rightarrow> timestamp" where
  "midpoint timestamps f = (timestamps ! f + timestamps ! (f + 1)) / 2"

text \<open>The loop invariant: the buckets hold, in order, the first \<open>data_index\<close> events; an
  event sits in bucket \<open>f\<close> only if it is at most the midpoint of \<open>f\<close> and above every
  earlier midpoint; buckets after the cursor are empty; the events still to come are above
  every midpoint the cursor has passed.\<close>

definition corr_inv ::
  "'a datum list \<Rightarrow> timestamp list \<Rightarrow> nat \<Rightarrow> nat \<Rightarrow> 'a datum list list \<Rightarrow> bool" where
  "corr_inv dat tss fi di dbf \<longleftrightarrow>
     length dbf = length tss \<and> di \<le> length dat \<and> concat dbf = take di dat \<and>
     (\<forall>f. fi < f \<and> f < length dbf \<longrightarrow> dbf ! f = []) \<and>
     (\<forall>f<length dbf. \<forall>e\<in>set (dbf ! f).
        f + 1 < length tss \<and> timestamp e \<le> midpoint tss f \<and> (\<forall>j<f. midpoint tss j < timestamp e)) \<and>
     (\<forall>j<fi. \<forall>d. di \<le> d \<and> d < length dat \<longrightarrow> midpoint tss j < timestamp (dat ! d))"

section \<open>Recordings and the migration run\<close>

text \<open>
  A recording directory is modelled by its two metadata files (\<open>info.csv\<close> and
  \<open>user_info.csv\<close>, each a key/value list or absent), its other files by name, the steps
  called so far, and the exception that is propagating, if any. Of a file's content the
  model keeps what the control flow of the steps reads: the top-level keys of a serialized
  dict (\<open>Obj\<close>), the numbers of an array file (\<open>Floats\<close>); everything else is \<open>Blob\<close>.
  The entries of the dicts, the bytes of media files and the backup copy that
  \<open>update_recording_v073_to_v074\<close> writes when it changed an entry are not modelled.
  \<open>calls\<close> is a ghost field: it records each step function at the moment it is called.
\<close>

datatype step =
    Convert_pupil_mobile_recording_to_v094
  | Update_recording_bytes_to_unicode
  | Update_recording_v073_to_v074
  | Update_recording_v05_to_v074
  | Update_recording_v04_to_v074
  | Update_recording_v03_to_v074
  | Update_recording_v074_to_v082
  | Update_recording_v082_to_v083
  | Update_recording_v083_to_v086
  | Update_recording_v086_to_v087
  | Update_recording_v087_to_v091
  | Update_recording_v091_to_v093
  | Update_recording_v093_to_v094
  | Update_recording_v094_to_v0913
  | Update_recording_v0913_to_v0915
  | Update_recording_v0915_v13
  | Update_recording_v13_v14
  | Check_for_worldless_recording
  | Update_recording_v14_v18
  | Update_recording_v18_v19

datatype content = Obj "string list" | Floats "timestamp list" | Blob

type_synonym meta = "(string \<times> string) list"

record recording =
  info_csv :: "meta option"
  user_info_csv :: "meta option"
  files :: "(string \<times> content) list"
  calls :: "step list"
  raised :: "error option"

text \<open>
  Modelled from the spec: \<open>VersionFormat\<close>, the SemanticVersion of the spec, an ordered
  triple (major, minor, patch) compared lexicographically, a missing minor or patch being 0.
  The module that defines \<open>VersionFormat\<close> and \<open>read_rec_version\<close> (\<open>version_utils\<close>) is
  not among the sources, and the line that imports it is commented out: in the module as it
  stands both names are unbound. The run below takes the binding of the two names as a
  parameter; see there.
\<close>

type_synonym VersionFormat = "nat \<times> nat \<times> nat"

text \<open>Modelled from the spec: \<open>parse\<close> of a version text, one to three numeric
  components separated by dots; FormatError on anything else.\<close>

definition digit_val :: "char \<Rightarrow> nat option" where
  "digit_val c = (if c \<in> set ''0123456789'' then Some (of_char c - 48) else None)"

fun parse_digits :: "nat \<Rightarrow> string \<Rightarrow> nat option" where
  "parse_digits acc [] = Some acc"
| "parse_digits acc (c # cs) =
     (case digit_val c of None \<Rightarrow> None | Some d \<Rightarrow> parse_digits (10 * acc + d) cs)"

definition parse_component :: "string \<Rightarrow> nat option" where
  "parse_component s = (if s = [] then None else parse_digits 0 s)"

fun split_dots :: "string \<Rightarrow> string \<Rightarrow> string list" where
  "split_dots cur [] = [rev cur]"
| "split_dots cur (c # cs) =
     (if c = CHR ''.'' then rev cur # split_dots [] cs else split_dots (c # cur) cs)"

definition parse_version :: "string \<Rightarrow> error + VersionFormat" where
  "parse_version text =
     (case map parse_component (split_dots [] text) of
        [Some major] \<Rightarrow> Inr (major, 0, 0)
      | [Some major, Some minor] \<Rightarrow> Inr (major, minor, 0)
      | [Some major, Some minor, Some patch] \<Rightarrow> Inr (major, minor, patch)
      | _ \<Rightarrow> Inl FormatError)"

text \<open>Modelled from the spec: a reader of the declared version, the parse of the
  \<open>"Data Format Version"\<close> value. It is the reader bound in the examples with the names
  bound.\<close>

definition declared_version :: "meta \<Rightarrow> error + VersionFormat" where
  "declared_version meta_info =
     (case map_of meta_info ''Data Format Version'' of
        None \<Rightarrow> Inl KeyError
      | Some text \<Rightarrow> parse_version text)"

subsection \<open>Statements, exceptions, files\<close>

text \<open>A statement list runs in order; once an exception is raised the remaining
  statements are skipped and the exception stays in the state.\<close>

fun seq :: "(recording \<Rightarrow> recording) list \<Rightarrow> recording \<Rightarrow> recording" where
  "seq [] r = r"
| "seq (f # fs) r = (if raised r = None then seq fs (f r) else r)"

definition raise :: "error \<Rightarrow> recording \<Rightarrow> recording" where
  "raise e r = r\<lparr>raised := Some e\<rparr>"

definition enter :: "step \<Rightarrow> recording \<Rightarrow> recording" where
  "enter s r = r\<lparr>calls := calls r @ [s]\<rparr>"

definition run_if :: "bool \<Rightarrow> (recording \<Rightarrow> recording) \<Rightarrow> recording \<Rightarrow> recording" where
  "run_if c f r = (if c then f r else r)"

definition exists_file :: "string \<Rightarrow> recording \<Rightarrow> bool" where
  "exists_file name r = (map_of (files r) name \<noteq> None)"

definition save_file :: "string \<Rightarrow> content \<Rightarrow> recording \<Rightarrow> recording" where
  "save_file name c r = r\<lparr>files := AList.update name c (files r)\<rparr>"

text \<open>
  Modelled from the spec: the loaders of the storage layer (\<open>file_methods\<close>, not among the
  sources). Loading an object by path fails when the file is absent (the spec's
  MissingResourceError, Python's FileNotFoundError); a file that is no serialized object
  does not unpickle. \<open>np.load\<close> is numpy's.
\<close>

definition fm_load_object :: "string \<Rightarrow> recording \<Rightarrow> error + string list" where
  "fm_load_object name r =
     (case map_of (files r) name of
        None \<Rightarrow> Inl FileNotFoundError
      | Some (Obj keys) \<Rightarrow> Inr keys
      | Some _ \<Rightarrow> Inl UnpicklingError)"

definition np_load :: "string \<Rightarrow> recording \<Rightarrow> error + timestamp list" where
  "np_load name r =
     (case map_of (files r) name of
        None \<Rightarrow> Inl FileNotFoundError
      | Some (Floats xs) \<Rightarrow> Inr xs
      | Some _ \<Rightarrow> Inl ValueError)"

text \<open>\<open>os.rename\<close> with the behaviour on Unix, which the source mirrors on Windows: an
  existing destination is replaced.\<close>

definition os_rename :: "string \<Rightarrow> string \<Rightarrow> recording \<Rightarrow> recording" where
  "os_rename src dst r =
     (case map_of (files r) src of
        None \<Rightarrow> raise FileNotFoundError r
      | Some c \<Rightarrow> r\<lparr>files := AList.update dst c (AList.delete src (files r))\<rparr>)"

definition copy2 :: "string \<Rightarrow> string \<Rightarrow> recording \<Rightarrow> recording" where
  "copy2 src dst r =
     (case map_of (files r) src of
        None \<Rightarrow> raise FileNotFoundError r
      | Some c \<Rightarrow> save_file dst c r)"

text \<open>\<open>os.path.splitext\<close> on a file name: the extension starts at the last dot, unless
  only dots come before it.\<close>

definition splitext :: "string \<Rightarrow> string \<times> string" where
  "splitext p =
     (let e = takeWhile (\<lambda>c. c \<noteq> CHR ''.'') (rev p);
          root = rev (drop (length e + 1) (rev p))
      in if length e = length p \<or> list_all (\<lambda>c. c = CHR ''.'') root then (p, [])
         else (root, CHR ''.'' # rev e))"

definition in_rec_dir :: "string \<Rightarrow> bool" where
  "in_rec_dir name \<longleftrightarrow> CHR ''/'' \<notin> set name \<and> \<not> prefix ''.'' name"

definition glob_time :: "recording \<Rightarrow> string list" where
  "glob_time r = filter (\<lambda>n. in_rec_dir n \<and> suffix ''.time'' n) (map fst (files r))"

subsection \<open>Metadata\<close>

definition load_meta_info :: "recording \<Rightarrow> error + meta" where
  "load_meta_info r =
     (case info_csv r of
        Some m \<Rightarrow> Inr m
      | None \<Rightarrow> (case user_info_csv r of Some m \<Rightarrow> Inr m | None \<Rightarrow> Inl FileNotFoundError))"

definition update_meta_info :: "meta \<Rightarrow> recording \<Rightarrow> recording" where
  "update_meta_info meta_info r = r\<lparr>info_csv := Some meta_info\<rparr>"

definition update_info_version_to :: "string \<Rightarrow> recording \<Rightarrow> recording" where
  "update_info_version_to new_version r =
     (case load_meta_info r of
        Inl e \<Rightarrow> raise e r
      | Inr meta_info \<Rightarrow>
          update_meta_info (AList.update ''Data Format Version'' new_version meta_info) r)"

subsection \<open>The conversion of Pupil Mobile recordings\<close>

definition existing_locs :: "string \<Rightarrow> recording \<Rightarrow> string list" where
  "existing_locs time_name r =
     filter (\<lambda>loc. exists_file loc r) (map (\<lambda>ext. time_name @ ext) [''.mjpeg'', ''.mp4'', ''.m4a''])"

text \<open>\<open>np.fromfile\<close> reads the raw floats of a \<open>.time\<close> file; the bytes of a file that
  holds no array are not modelled and read as the empty array.\<close>

definition np_fromfile :: "string \<Rightarrow> recording \<Rightarrow> timestamp list" where
  "np_fromfile name r = (case map_of (files r) name of Some (Floats xs) \<Rightarrow> xs | _ \<Rightarrow> [])"

text \<open>One turn of the loop over the \<open>*.time\<close> files. For a world camera the loop opens the
  video with \<open>av.open\<close>; \<open>import av\<close> is commented out, the name \<open>av\<close> is unbound, and the
  turn raises NameError before the intrinsics are loaded.\<close>

definition convert_time_file :: "string \<Rightarrow> recording \<Rightarrow> recording" where
  "convert_time_file time_loc r =
     (let time_name0 = fst (splitext time_loc) in
      case existing_locs time_name0 r of
        [] \<Rightarrow> r
      | media_loc # _ \<Rightarrow>
          (let eye = time_name0 \<in> set [''Pupil Cam1 ID0'', ''Pupil Cam1 ID1'',
                                        ''Pupil Cam2 ID0'', ''Pupil Cam2 ID1''];
               world = time_name0 \<in> set [''Pupil Cam1 ID2'', ''Logitech Webcam C930e''];
               time_name = (if eye then ''eye'' @ [last time_name0]
                            else if world then ''world''
                            else if prefix ''audio_'' time_name0 then ''audio''
                            else time_name0);
               timestamps = np_fromfile time_loc r;
               media_dst = (if time_name = ''audio'' then ''audio.mp4''
                            else time_name @ snd (splitext media_loc))
           in seq [run_if (\<not> eye \<and> world) (raise NameError),
                   save_file (time_name @ ''_timestamps.npy'') (Floats timestamps),
                   os_rename media_loc media_dst] r))"

definition convert_pupil_mobile_recording_to_v094 :: "recording \<Rightarrow> recording" where
  "convert_pupil_mobile_recording_to_v094 =
     seq [enter Convert_pupil_mobile_recording_to_v094,
          (\<lambda>r. seq (map convert_time_file (glob_time r)) r),
          (\<lambda>r. if \<not> exists_file ''pupil_data'' r
                then save_file ''pupil_data''
                       (Obj [''pupil_positions'', ''gaze_positions'', ''notifications'']) r
                else r)]"

subsection \<open>The conversions to v0.7.4\<close>

definition update_recording_bytes_to_unicode :: "recording \<Rightarrow> recording" where
  "update_recording_bytes_to_unicode =
     seq [enter Update_recording_bytes_to_unicode,
          (\<lambda>r. case info_csv r of
                  None \<Rightarrow> raise FileNotFoundError r
                | Some meta_info \<Rightarrow> r\<lparr>info_csv := Some meta_info\<rparr>)]"

definition update_recording_v073_to_v074 :: "recording \<Rightarrow> recording" where
  "update_recording_v073_to_v074 =
     seq [enter Update_recording_v073_to_v074,
          (\<lambda>r. case fm_load_object ''pupil_data'' r of
                  Inl e \<Rightarrow> raise e r
                | Inr pupil_data \<Rightarrow>
                    if ''pupil'' \<notin> set pupil_data then raise KeyError r
                    else save_file ''pupil_data'' (Obj pupil_data) r)]"

definition update_recording_v05_to_v074 :: "recording \<Rightarrow> recording" where
  "update_recording_v05_to_v074 =
     seq [enter Update_recording_v05_to_v074,
          (\<lambda>r. case fm_load_object ''pupil_data'' r of
                  Inl e \<Rightarrow> raise e r
                | Inr pupil_data \<Rightarrow>
                    seq [save_file ''pupil_data_old'' (Obj pupil_data),
                         (\<lambda>r. if ''pupil'' \<notin> set pupil_data then raise KeyError r
                               else save_file ''pupil_data'' (Obj pupil_data) r)] r)]"

definition update_recording_v04_to_v074 :: "recording \<Rightarrow> recording" where
  "update_recording_v04_to_v074 =
     seq [enter Update_recording_v04_to_v074,
          (\<lambda>r. case np_load ''gaze_positions.npy'' r of
                  Inl e \<Rightarrow> raise e r
                | Inr gaze_array \<Rightarrow>
                    (case np_load ''pupil_positions.npy'' r of
                       Inl e \<Rightarrow> raise e r
                     | Inr pupil_array \<Rightarrow>
                         save_file ''pupil_data'' (Obj [''pupil_positions'', ''gaze_positions'']) r))]"

definition update_recording_v03_to_v074 :: "recording \<Rightarrow> recording" where
  "update_recording_v03_to_v074 =
     seq [enter Update_recording_v03_to_v074,
          (\<lambda>r. case np_load ''gaze_positions.npy'' r of
                  Inl e \<Rightarrow> raise e r
                | Inr pupilgaze_array \<Rightarrow>
                    save_file ''pupil_data'' (Obj [''pupil_positions'', ''gaze_positions'']) r),
          (\<lambda>r. if \<not> exists_file ''world_timestamps.npy'' r \<and> exists_file ''timestamps.npy'' r
                then os_rename ''timestamps.npy'' ''world_timestamps.npy'' r
                else r)]"

subsection \<open>The incremental steps\<close>

text \<open>A step that loads \<open>pupil_data\<close>, edits entries of the dict and saves it back; \<open>need\<close>
  are the top-level keys the step subscripts (KeyError when one is absent).\<close>

definition rewrite_pupil_data :: "string list \<Rightarrow> recording \<Rightarrow> recording" where
  "rewrite_pupil_data need r =
     (case fm_load_object ''pupil_data'' r of
        Inl e \<Rightarrow> raise e r
      | Inr pupil_data \<Rightarrow>
          if \<not> list_all (\<lambda>k. k \<in> set pupil_data) need then raise KeyError r
          else save_file ''pupil_data'' (Obj pupil_data) r)"

definition update_recording_v074_to_v082 :: "recording \<Rightarrow> recording" where
  "update_recording_v074_to_v082 =
     seq [enter Update_recording_v074_to_v082, update_info_version_to ''v0.8.2'']"

definition update_recording_v082_to_v083 :: "recording \<Rightarrow> recording" where
  "update_recording_v082_to_v083 =
     seq [enter Update_recording_v082_to_v083,
          rewrite_pupil_data [''gaze_positions''],
          update_info_version_to ''v0.8.3'']"

definition update_recording_v083_to_v086 :: "recording \<Rightarrow> recording" where
  "update_recording_v083_to_v086 =
     seq [enter Update_recording_v083_to_v086,
          rewrite_pupil_data [],
          update_info_version_to ''v0.8.6'']"

definition update_recording_v086_to_v087 :: "recording \<Rightarrow> recording" where
  "update_recording_v086_to_v087 =
     seq [enter Update_recording_v086_to_v087,
          rewrite_pupil_data [],
          update_info_version_to ''v0.8.7'']"

definition update_recording_v087_to_v091 :: "recording \<Rightarrow> recording" where
  "update_recording_v087_to_v091 =
     seq [enter Update_recording_v087_to_v091, update_info_version_to ''v0.9.1'']"

definition update_recording_v091_to_v093 :: "recording \<Rightarrow> recording" where
  "update_recording_v091_to_v093 =
     seq [enter Update_recording_v091_to_v093,
          rewrite_pupil_data [],
          update_info_version_to ''v0.9.3'']"

text \<open>\<open>update_recording_v093_to_v094\<close> re-serializes every file it can load and catches
  every exception of that loop: names and modelled contents stay as they are.\<close>

definition update_recording_v093_to_v094 :: "recording \<Rightarrow> recording" where
  "update_recording_v093_to_v094 =
     seq [enter Update_recording_v093_to_v094, update_info_version_to ''v0.9.4'']"

text \<open>\<open>update_recording_v094_to_v0913\<close>: with \<open>audio.wav\<close> and its timestamps present, the
  first statement of the branch is \<open>av.open\<close>. The name \<open>av\<close> is unbound (\<open>import av\<close> is
  commented out), so the call raises NameError; the handler \<open>except av.AVError\<close> evaluates
  the same unbound name, and the NameError leaves the step.\<close>

definition update_recording_v094_to_v0913 :: "recording \<Rightarrow> recording" where
  "update_recording_v094_to_v0913 =
     seq [enter Update_recording_v094_to_v0913,
          (\<lambda>r. if exists_file ''audio.wav'' r \<and> exists_file ''audio_timestamps.npy'' r
                then raise NameError r
                else r),
          update_info_version_to ''v0.9.13'']"

text \<open>\<open>update_recording_v0913_to_v0915\<close>: the \<open>try\<close> around the intrinsics upgrade catches
  IOError only, that is the missing \<open>camera_calibration\<close> file.\<close>

definition update_recording_v0913_to_v0915 :: "recording \<Rightarrow> recording" where
  "update_recording_v0913_to_v0915 =
     seq [enter Update_recording_v0913_to_v0915,
          (\<lambda>r. case fm_load_object ''pupil_data'' r of
                  Inl e \<Rightarrow> raise e r
                | Inr pupil_data \<Rightarrow>
                    if ''notifications'' \<notin> set pupil_data
                    then save_file ''pupil_data'' (Obj (pupil_data @ [''notifications''])) r
                    else r),
          (\<lambda>r. case fm_load_object ''camera_calibration'' r of
                  Inl FileNotFoundError \<Rightarrow> r
                | Inl e \<Rightarrow> raise e r
                | Inr old_calib \<Rightarrow>
                    if ''resolution'' \<notin> set old_calib \<or> ''camera_name'' \<notin> set old_calib
                    then raise KeyError r
                    else seq [save_file ''world.intrinsics'' Blob,
                              os_rename ''camera_calibration'' ''camera_calibration.deprecated''] r),
          update_info_version_to ''v0.9.15'']"

definition convert_cam2_time_file :: "string \<Rightarrow> recording \<Rightarrow> recording" where
  "convert_cam2_time_file time_loc r =
     (let time_name0 = fst (splitext time_loc) in
      case existing_locs time_name0 r of
        [] \<Rightarrow> r
      | video_loc # _ \<Rightarrow>
          if time_name0 \<in> set [''Pupil Cam2 ID0'', ''Pupil Cam2 ID1''] then
            (let time_name = ''eye'' @ [last time_name0];
                 timestamps = np_fromfile time_loc r;
                 video_dst = time_name @ snd (splitext video_loc)
             in seq [save_file (time_name @ ''_timestamps.npy'') (Floats timestamps),
                     os_rename video_loc video_dst] r)
          else r)"

definition update_recording_v0915_v13 :: "recording \<Rightarrow> recording" where
  "update_recording_v0915_v13 =
     seq [enter Update_recording_v0915_v13,
          (\<lambda>r. seq (map convert_cam2_time_file (glob_time r)) r),
          update_info_version_to ''v1.3'']"

definition update_recording_v13_v14 :: "recording \<Rightarrow> recording" where
  "update_recording_v13_v14 =
     seq [enter Update_recording_v13_v14, update_info_version_to ''v1.4'']"

text \<open>\<open>update_recording_v14_v18\<close>: the legacy loader opens \<open>pupil_data\<close>; each of its
  topics is written to a \<open>.pldata\<close> file and a timestamps file under its new name.\<close>

definition legacy_topic_mapping :: "string \<Rightarrow> string" where
  "legacy_topic_mapping old_topic =
     (case map_of [(''notifications'', ''notify''), (''gaze_positions'', ''gaze''),
                   (''pupil_positions'', ''pupil'')] old_topic of
        Some new_topic \<Rightarrow> new_topic
      | None \<Rightarrow> old_topic)"

definition PLData_Writer :: "string \<Rightarrow> recording \<Rightarrow> recording" where
  "PLData_Writer name =
     seq [save_file (name @ ''.pldata'') Blob, save_file (name @ ''_timestamps.npy'') Blob]"

definition update_recording_v14_v18 :: "recording \<Rightarrow> recording" where
  "update_recording_v14_v18 =
     seq [enter Update_recording_v14_v18,
          (\<lambda>r. case fm_load_object ''pupil_data'' r of
                  Inl e \<Rightarrow> raise e r
                | Inr topics \<Rightarrow>
                    seq (map (\<lambda>old_topic. PLData_Writer (legacy_topic_mapping old_topic)) topics) r),
          update_info_version_to ''v1.8'']"

text \<open>\<open>update_recording_v18_v19\<close>: \<open>load_pldata_file\<close> of the storage layer gives an empty
  stream when the \<open>notify\<close> files are absent, so only the writer shows in the model.\<close>

definition update_recording_v18_v19 :: "recording \<Rightarrow> recording" where
  "update_recording_v18_v19 =
     seq [enter Update_recording_v18_v19,
          (\<lambda>r. if exists_file ''offline_data/annotations.pldata'' r
                then seq [copy2 ''offline_data/annotations.pldata'' ''annotation.pldata'',
                          copy2 ''offline_data/annotations_timestamps.npy''
                                ''annotation_timestamps.npy''] r
                else r),
          PLData_Writer ''annotation'',
          update_info_version_to ''v1.9'']"

subsection \<open>The worldless-recording check\<close>

text \<open>The loop over the eye timestamp files keeps the smallest first and the largest last
  timestamp of the files with more than one entry; \<open>None\<close> stands for the initial
  \<open>(inf, -inf)\<close>. A missing file and a failed assertion are caught inside the loop.\<close>

fun eye_range ::
  "string list \<Rightarrow> recording \<Rightarrow> (timestamp \<times> timestamp) option \<Rightarrow> error + (timestamp \<times> timestamp) option" where
  "eye_range [] r acc = Inr acc"
| "eye_range (f # fs) r acc =
     (case np_load f r of
        Inl FileNotFoundError \<Rightarrow> eye_range fs r acc
      | Inl e \<Rightarrow> Inl e
      | Inr eye_ts \<Rightarrow>
          if 1 < length eye_ts then
            eye_range fs r
              (Some (case acc of
                       None \<Rightarrow> (hd eye_ts, last eye_ts)
                     | Some (min_ts, max_ts) \<Rightarrow> (min min_ts (hd eye_ts), max max_ts (last eye_ts))))
          else eye_range fs r acc)"

definition arange :: "rat \<Rightarrow> rat \<Rightarrow> rat \<Rightarrow> rat list" where
  "arange start stop step = map (\<lambda>k. start + of_nat k * step) [0..<nat \<lceil>(stop - start) / step\<rceil>]"

definition check_for_worldless_recording :: "recording \<Rightarrow> recording" where
  "check_for_worldless_recording =
     seq [enter Check_for_worldless_recording,
          (\<lambda>r.
             let valid_ext = [''.mp4'', ''.mkv'', ''.avi'', ''.h264'', ''.mjpeg''];
                 existing_videos =
                   filter (\<lambda>f. in_rec_dir f \<and> prefix ''world.'' f \<and> snd (splitext f) \<in> set valid_ext)
                     (map fst (files r))
             in if existing_videos \<noteq> [] then r
                else
                  (let eye_files =
                         filter (\<lambda>f. in_rec_dir f \<and> prefix ''eye'' f \<and> suffix ''_timestamps.npy'' f
                                      \<and> 18 \<le> length f)
                           (map fst (files r))
                   in case eye_range eye_files r None of
                        Inl e \<Rightarrow> raise e r
                      | Inr None \<Rightarrow> raise AssertionError r
                      | Inr (Some (min_ts, max_ts)) \<Rightarrow>
                          if min_ts < max_ts then
                            seq [save_file ''world_timestamps.npy'' (Floats (arange min_ts max_ts (1 / 30))),
                                 save_file ''world.fake'' (Obj [''frame_rate'', ''frame_size'', ''version''])] r
                          else raise AssertionError r))]"

subsection \<open>The migration run\<close>

text \<open>
  The run is translated as the module has it, slips included.
  \<^item> \<open>read_rec_version\<close> and \<open>VersionFormat\<close>: the import that binds them is commented out, so
    the call \<open>read_rec_version(meta_info)\<close> raises NameError in every run, after the metadata
    is rewritten and before any step. The parameter \<open>version_utils\<close> is the binding of the
    names: \<open>None\<close> is the module as it stands; \<open>Some read_rec_version\<close> is the module with the
    names bound, which is what the statements after the call are written for.
  \<^item> \<open>logger\<close> is a \<open>logging.Logger\<close>, which has a method \<open>error\<close> and no attribute \<open>Error\<close>:
    the call in the branch for recordings older than v0.3 raises AttributeError, and the
    \<open>return\<close> after it is not reached. Either way the run ends in that branch.
\<close>

definition logger_Error :: "recording \<Rightarrow> recording" where
  "logger_Error = raise AttributeError"

definition update_recording_to_recent ::
  "(meta \<Rightarrow> error + VersionFormat) option \<Rightarrow> recording \<Rightarrow> recording" where
  "update_recording_to_recent version_utils r0 =
     (case load_meta_info r0 of
        Inl e \<Rightarrow> raise e r0
      | Inr meta_info0 \<Rightarrow>
          (let r1 = update_meta_info meta_info0 r0;
               mobile = ((case map_of meta_info0 ''Capture Software'' of
                            None \<Rightarrow> ''Pupil Capture'' | Some v \<Rightarrow> v) = ''Pupil Mobile''
                         \<and> map_of meta_info0 ''Data Format Version'' = None);
               meta_info = (if mobile then AList.update ''Data Format Version'' ''v0.9.4'' meta_info0
                            else meta_info0);
               r2 = (if mobile
                     then seq [convert_pupil_mobile_recording_to_v094, update_meta_info meta_info] r1
                     else r1)
           in if raised r2 \<noteq> None then r2
              else
                (case version_utils of
                   None \<Rightarrow> raise NameError r2
                 | Some read_rec_version \<Rightarrow>
                (case read_rec_version meta_info of
                   Inl e \<Rightarrow> raise e r2
                 | Inr rec_version \<Rightarrow>
                     seq [run_if (rec_version \<le> (0, 8, 7)) update_recording_bytes_to_unicode,
                          (if rec_version \<ge> (0, 7, 4) then id
                           else if rec_version \<ge> (0, 7, 3) then update_recording_v073_to_v074
                           else if rec_version \<ge> (0, 5, 0) then update_recording_v05_to_v074
                           else if rec_version \<ge> (0, 4, 0) then update_recording_v04_to_v074
                           else if rec_version \<ge> (0, 3, 0) then update_recording_v03_to_v074
                           else logger_Error),
                          run_if (rec_version < (0, 8, 2)) update_recording_v074_to_v082,
                          run_if (rec_version < (0, 8, 3)) update_recording_v082_to_v083,
                          run_if (rec_version < (0, 8, 6)) update_recording_v083_to_v086,
                          run_if (rec_version < (0, 8, 7)) update_recording_v086_to_v087,
                          run_if (rec_version < (0, 9, 1)) update_recording_v087_to_v091,
                          run_if (rec_version < (0, 9, 3)) update_recording_v091_to_v093,
                          run_if (rec_version < (0, 9, 4)) update_recording_v093_to_v094,
                          run_if (rec_version < (0, 9, 13)) update_recording_v094_to_v0913,
                          run_if (rec_version < (0, 9, 15)) update_recording_v0913_to_v0915,
                          run_if (rec_version < (1, 3, 0)) update_recording_v0915_v13,
                          run_if (rec_version < (1, 4, 0)) update_recording_v13_v14,
                          check_for_worldless_recording,
                          run_if (rec_version < (1, 8, 0)) update_recording_v14_v18,
                          run_if (rec_version < (1, 9, 0)) update_recording_v18_v19] r2))))"

subsection \<open>The plan in the spec's words\<close>

text \<open>
  The spec's \<open>MigrationPlan.compute\<close>: a fixed table of (threshold, step) pairs in
  increasing threshold order, a step being included iff the current version is below its
  threshold. The table lists the steps the run gates with \<open>rec_version < threshold\<close>. It is
  compared with the calls of the run below.
\<close>

definition threshold_table :: "(VersionFormat \<times> step) list" where
  "threshold_table =
     [((0, 8, 2), Update_recording_v074_to_v082),
      ((0, 8, 3), Update_recording_v082_to_v083),
      ((0, 8, 6), Update_recording_v083_to_v086),
      ((0, 8, 7), Update_recording_v086_to_v087),
      ((0, 9, 1), Update_recording_v087_to_v091),
      ((0, 9, 3), Update_recording_v091_to_v093),
      ((0, 9, 4), Update_recording_v093_to_v094),
      ((0, 9, 13), Update_recording_v094_to_v0913),
      ((0, 9, 15), Update_recording_v0913_to_v0915),
      ((1, 3, 0), Update_recording_v0915_v13),
      ((1, 4, 0), Update_recording_v13_v14),
      ((1, 8, 0), Update_recording_v14_v18),
      ((1, 9, 0), Update_recording_v18_v19)]"

definition MigrationPlan_compute :: "VersionFormat \<Rightarrow> step list" where
  "MigrationPlan_compute current = map snd (filter (\<lambda>(threshold, s). current < threshold) threshold_table)"

definition threshold_steps :: "step list" where
  "threshold_steps = map snd threshold_table"

subsection \<open>Predicates for the proofs on the run\<close>

text \<open>
  What a statement does to the ghost field \<open>calls\<close>: \<open>keeps_calls\<close> leaves it as it is,
  \<open>appends f t\<close> adds the steps \<open>t\<close>, and \<open>stmt_calls f t ok\<close> adds \<open>t\<close> and can
  return without an exception only when \<open>ok\<close> holds. \<open>legacy_calls\<close> names the conversion
  to v0.7.4 that the \<open>elif\<close> chain of the run selects; \<open>run_stmts\<close> is the statement list
  of the run after the version is read, which a run reaches only with the names of
  \<open>version_utils\<close> bound, and \<open>run_tos\<close> what each of its statements adds.
\<close>

definition keeps_calls :: "(recording \<Rightarrow> recording) \<Rightarrow> bool" where
  "keeps_calls f \<longleftrightarrow> (\<forall>r. calls (f r) = calls r)"

definition appends :: "(recording \<Rightarrow> recording) \<Rightarrow> step list \<Rightarrow> bool" where
  "appends f t \<longleftrightarrow> (\<forall>r. raised r = None \<longrightarrow> calls (f r) = calls r @ t)"

definition legacy_calls :: "VersionFormat \<Rightarrow> step list" where
  "legacy_calls v =
     (if v \<ge> (0, 7, 4) then []
      else if v \<ge> (0, 7, 3) then [Update_recording_v073_to_v074]
      else if v \<ge> (0, 5, 0) then [Update_recording_v05_to_v074]
      else if v \<ge> (0, 4, 0) then [Update_recording_v04_to_v074]
      else if v \<ge> (0, 3, 0) then [Update_recording_v03_to_v074]
      else [])"

definition stmt_calls :: "(recording \<Rightarrow> recording) \<Rightarrow> step list \<Rightarrow> bool \<Rightarrow> bool" where
  "stmt_calls f t ok \<longleftrightarrow>
     (\<forall>r. raised r = None \<longrightarrow> calls (f r) = calls r @ t \<and> (raised (f r) = None \<longrightarrow> ok))"

definition run_stmts :: "VersionFormat \<Rightarrow> (recording \<Rightarrow> recording) list" where
  "run_stmts v = [run_if (v \<le> (0, 8, 7)) update_recording_bytes_to_unicode,
              (if v \<ge> (0, 7, 4) then id
               else if v \<ge> (0, 7, 3) then update_recording_v073_to_v074
               else if v \<ge> (0, 5, 0) then update_recording_v05_to_v074
               else if v \<ge> (0, 4, 0) then update_recording_v04_to_v074
               else if v \<ge> (0, 3, 0) then update_recording_v03_to_v074
               else logger_Error),
              run_if (v < (0, 8, 2)) update_recording_v074_to_v082,
              run_if (v < (0, 8, 3)) update_recording_v082_to_v083,
              run_if (v < (0, 8, 6)) update_recording_v083_to_v086,
              run_if (v < (0, 8, 7)) update_recording_v086_to_v087,
              run_if (v < (0, 9, 1)) update_recording_v087_to_v091,
              run_if (v < (0, 9, 3)) update_recording_v091_to_v093,
              run_if (v < (0, 9, 4)) update_recording_v093_to_v094,
              run_if (v < (0, 9, 13)) update_recording_v094_to_v0913,
              run_if (v < (0, 9, 15)) update_recording_v0913_to_v0915,
              run_if (v < (1, 3, 0)) update_recording_v0915_v13,
              run_if (v < (1, 4, 0)) update_recording_v13_v14,
              check_for_worldless_recording,
              run_if (v < (1, 8, 0)) update_recording_v14_v18,
              run_if (v < (1, 9, 0)) update_recording_v18_v19]"

definition run_tos :: "VersionFormat \<Rightarrow> (step list \<times> bool) list" where
  "run_tos v = [(if v \<le> (0, 8, 7) then [Update_recording_bytes_to_unicode] else [], True),
               (legacy_calls v, (0, 3, 0) \<le> v),
               (if v < (0, 8, 2) then [Update_recording_v074_to_v082] else [], True),
               (if v < (0, 8, 3) then [Update_recording_v082_to_v083] else [], True),
               (if v < (0, 8, 6) then [Update_recording_v083_to_v086] else [], True),
               (if v < (0, 8, 7) then [Update_recording_v086_to_v087] else [], True),
               (if v < (0, 9, 1) then [Update_recording_v087_to_v091] else [], True),
               (if v < (0, 9, 3) then [Update_recording_v091_to_v093] else [], True),
               (if v < (0, 9, 4) then [Update_recording_v093_to_v094] else [], True),
               (if v < (0, 9, 13) then [Update_recording_v094_to_v0913] else [], True),
               (if v < (0, 9, 15) then [Update_recording_v0913_to_v0915] else [], True),
               (if v < (1, 3, 0) then [Update_recording_v0915_v13] else [], True),
               (if v < (1, 4, 0) then [Update_recording_v13_v14] else [], True),
               ([Check_for_worldless_recording], True),
               (if v < (1, 8, 0) then [Update_recording_v14_v18] else [], True),
               (if v < (1, 9, 0) then [Update_recording_v18_v19] else [], True)]"



definition missing_inv :: "(string \<times> content) list \<Rightarrow> recording \<Rightarrow> bool" where
  "missing_inv F r \<longleftrightarrow> raised r = None \<and> files r = F \<and> info_csv r \<noteq> None"


section \<open>Binary search on a sorted array\<close>

text \<open>On an ascending array the bisection returns the leftmost insertion point: every
  element before it is smaller than the key, every element from it on is at least the key.\<close>

lemma binsearch_bounds:
  "min_idx \<le> max_idx \<Longrightarrow> min_idx \<le> binsearch arr key min_idx max_idx \<and> binsearch arr key min_idx max_idx \<le> max_idx"
proof (induction arr key min_idx max_idx rule: binsearch.induct)
  case (1 arr key min_idx max_idx)
  show ?case
  proof (cases "min_idx < max_idx")
    case False
    with "1.prems" show ?thesis by (simp add: binsearch.simps)
  next
    case True
    define mid where "mid = min_idx + (max_idx - min_idx) div 2"
    have m: "min_idx \<le> mid" "mid < max_idx" using True by (auto simp: mid_def)
    show ?thesis
    proof (cases "arr ! mid < key")
      case lt: True
      have "mid + 1 \<le> binsearch arr key (mid + 1) max_idx \<and> binsearch arr key (mid + 1) max_idx \<le> max_idx"
        using "1.IH"(1)[OF True mid_def lt] m by simp
      moreover have "binsearch arr key min_idx max_idx = binsearch arr key (mid + 1) max_idx"
        using True lt by (subst binsearch.simps) (simp add: mid_def Let_def)
      ultimately show ?thesis using m by simp
    next
      case ge: False
      have "min_idx \<le> binsearch arr key min_idx mid \<and> binsearch arr key min_idx mid \<le> mid"
        using "1.IH"(2)[OF True mid_def ge] m by simp
      moreover have "binsearch arr key min_idx max_idx = binsearch arr key min_idx mid"
        using True ge by (subst binsearch.simps) (simp add: mid_def Let_def)
      ultimately show ?thesis using m by simp
    qed
  qed
qed

lemma binsearch_sorted:
  assumes "sorted arr" "min_idx \<le> max_idx" "max_idx \<le> length arr"
    "\<forall>i<min_idx. arr ! i < key"
    "\<forall>i. max_idx \<le> i \<and> i < length arr \<longrightarrow> key \<le> arr ! i"
  shows "(\<forall>i<binsearch arr key min_idx max_idx. arr ! i < key) \<and>
         (\<forall>i. binsearch arr key min_idx max_idx \<le> i \<and> i < length arr \<longrightarrow> key \<le> arr ! i)"
  using assms
proof (induction arr key min_idx max_idx rule: binsearch.induct)
  case (1 arr key min_idx max_idx)
  show ?case
  proof (cases "min_idx < max_idx")
    case False
    then have "binsearch arr key min_idx max_idx = min_idx" by (simp add: binsearch.simps)
    moreover from False "1.prems" have "min_idx = max_idx" by simp
    ultimately show ?thesis using "1.prems" by simp
  next
    case True
    define mid where "mid = min_idx + (max_idx - min_idx) div 2"
    have m: "min_idx \<le> mid" "mid < max_idx" using True by (auto simp: mid_def)
    show ?thesis
    proof (cases "arr ! mid < key")
      case lt: True
      have below: "\<forall>i<mid + 1. arr ! i < key"
      proof (intro allI impI)
        fix i assume "i < mid + 1"
        then have "i \<le> mid" by simp
        then have "arr ! i \<le> arr ! mid"
          using "1.prems"(1,3) m by (auto intro: sorted_nth_mono)
        with lt show "arr ! i < key" by simp
      qed
      have eq: "binsearch arr key min_idx max_idx = binsearch arr key (mid + 1) max_idx"
        using True lt by (subst binsearch.simps) (simp add: mid_def Let_def)
      show ?thesis unfolding eq
        using "1.IH"(1)[OF True mid_def lt "1.prems"(1) _ "1.prems"(3) below "1.prems"(5)] m by simp
    next
      case ge: False
      have above: "\<forall>i. mid \<le> i \<and> i < length arr \<longrightarrow> key \<le> arr ! i"
      proof (intro allI impI)
        fix i assume "mid \<le> i \<and> i < length arr"
        then have "arr ! mid \<le> arr ! i"
          using "1.prems"(1) by (auto intro: sorted_nth_mono)
        with ge show "key \<le> arr ! i" by simp
      qed
      have eq: "binsearch arr key min_idx max_idx = binsearch arr key min_idx mid"
        using True ge by (subst binsearch.simps) (simp add: mid_def Let_def)
      show ?thesis unfolding eq
        using "1.IH"(2)[OF True mid_def ge "1.prems"(1) _ _ "1.prems"(4) above] m "1.prems"(3) by simp
    qed
  qed
qed

lemma searchsorted_le_length: "searchsorted arr key \<le> length arr"
  using binsearch_bounds[of 0 "length arr" arr key] by (simp add: searchsorted_def)

lemma searchsorted_sorted:
  assumes "sorted arr"
  shows "\<forall>i<searchsorted arr key. arr ! i < key"
    and "\<forall>i. searchsorted arr key \<le> i \<and> i < length arr \<longrightarrow> key \<le> arr ! i"
  using binsearch_sorted[OF assms, of 0 "length arr" key] by (simp_all add: searchsorted_def)

lemma searchsorted_iff:
  assumes "sorted arr" "i < length arr"
  shows "i < searchsorted arr key \<longleftrightarrow> arr ! i < key"
  using searchsorted_sorted[OF assms(1), of key] assms(2)
  by (metis not_le_imp_less not_less)

section \<open>Bisector: construction, exact lookup, window lookup, insertion\<close>

lemma set_argsort: "set (argsort ts) = {0..<length ts}"
  by (simp add: argsort_def)

lemma length_argsort: "length (argsort ts) = length ts"
  by (simp add: argsort_def)

lemma mset_argsort: "mset (argsort ts) = mset [0..<length ts]"
  by (simp add: argsort_def)

lemma sorted_argsort: "sorted (map (\<lambda>i. ts ! i) (argsort ts))"
  by (simp add: argsort_def)

lemma zip_as_map_nth:
  "length xs = length ys \<Longrightarrow> map (\<lambda>i. (xs ! i, ys ! i)) [0..<length xs] = zip xs ys"
  by (rule nth_equalityI) simp_all

lemma zip_map_same: "zip (map f xs) (map g xs) = map (\<lambda>i. (f i, g i)) xs"
  by (induction xs) simp_all

lemma mset_zip_argsort:
  assumes "length dat = length ts"
  shows "mset (zip (map (\<lambda>i. ts ! i) (argsort ts)) (map (\<lambda>i. dat ! i) (argsort ts))) = mset (zip ts dat)"
proof -
  have "zip (map (\<lambda>i. ts ! i) (argsort ts)) (map (\<lambda>i. dat ! i) (argsort ts))
        = map (\<lambda>i. (ts ! i, dat ! i)) (argsort ts)"
    by (rule zip_map_same)
  then have "mset (zip (map (\<lambda>i. ts ! i) (argsort ts)) (map (\<lambda>i. dat ! i) (argsort ts)))
        = image_mset (\<lambda>i. (ts ! i, dat ! i)) (mset (argsort ts))"
    by simp
  also have "\<dots> = mset (map (\<lambda>i. (ts ! i, dat ! i)) [0..<length ts])"
    by (simp add: mset_argsort)
  also have "\<dots> = mset (zip ts dat)"
    using zip_as_map_nth[of ts dat] assms by simp
  finally show ?thesis .
qed

lemma Bisector_init_inv:
  assumes "Bisector_init dat ts = Inr b"
  shows "bisector_inv b"
  using assms sorted_argsort[of ts]
  by (auto simp: Bisector_init_def bisector_inv_def Let_def length_argsort split: if_splits)

lemma Bisector_init_mset:
  assumes "Bisector_init dat ts = Inr b"
  shows "mset (zip (data_ts b) (data b)) = mset (zip ts dat)"
proof -
  from assms have len: "length dat = length ts"
    by (auto simp: Bisector_init_def split: if_splits)
  show ?thesis
  proof (cases "dat = []")
    case True
    with assms len show ?thesis by (auto simp: Bisector_init_def)
  next
    case False
    with assms len have "data b = map (\<lambda>i. dat ! i) (argsort ts)" "data_ts b = map (\<lambda>i. ts ! i) (argsort ts)"
      by (auto simp: Bisector_init_def Let_def)
    then show ?thesis using mset_zip_argsort[OF len] by simp
  qed
qed

lemma Bisector_init_ok:
  "length dat = length ts \<Longrightarrow> \<exists>b. Bisector_init dat ts = Inr b"
  by (simp add: Bisector_init_def Let_def)

lemma Bisector_init_set_ts:
  assumes "Bisector_init dat ts = Inr b"
  shows "set (data_ts b) = set ts"
proof -
  from assms have len: "length dat = length ts"
    by (auto simp: Bisector_init_def split: if_splits)
  have i: "bisector_inv b" by (rule Bisector_init_inv[OF assms])
  have "set (map fst (zip (data_ts b) (data b))) = set (map fst (zip ts dat))"
    using Bisector_init_mset[OF assms] by (metis mset_map set_mset_mset)
  moreover have "map fst (zip (data_ts b) (data b)) = data_ts b"
    using i by (simp add: bisector_inv_def)
  moreover have "map fst (zip ts dat) = ts"
    using len by simp
  ultimately show ?thesis by simp
qed

lemma by_ts_found:
  assumes "bisector_inv b" "ts \<in> set (data_ts b)"
  shows "\<exists>d. by_ts b ts = Inr d \<and> (ts, d) \<in> set (zip (data_ts b) (data b))"
proof -
  let ?i = "searchsorted (data_ts b) ts"
  from assms have s: "sorted (data_ts b)" and len: "length (data_ts b) = length (data b)"
    by (simp_all add: bisector_inv_def)
  from assms(2) obtain k where k: "k < length (data_ts b)" "data_ts b ! k = ts"
    by (auto simp: in_set_conv_nth)
  have "\<not> k < ?i" using searchsorted_iff[OF s k(1), of ts] k(2) by simp
  then have lt: "?i < length (data_ts b)" using k(1) by simp
  have "ts \<le> data_ts b ! ?i" using searchsorted_sorted(2)[OF s, of ts] lt by simp
  moreover have "data_ts b ! ?i \<le> data_ts b ! k"
    using \<open>\<not> k < ?i\<close> k(1) s by (auto intro: sorted_nth_mono)
  ultimately have eq: "data_ts b ! ?i = ts" using k(2) by simp
  have "by_ts b ts = Inr (data b ! ?i)" using lt len eq by (simp add: by_ts_def Let_def)
  moreover have "(ts, data b ! ?i) \<in> set (zip (data_ts b) (data b))"
    using lt len eq by (auto simp: in_set_zip intro!: exI[of _ ?i])
  ultimately show ?thesis by blast
qed

lemma by_ts_Inr:
  assumes "by_ts b ts = Inr d"
  shows "(ts, d) \<in> set (zip (data_ts b) (data b))"
  using assms
  by (auto simp: by_ts_def Let_def in_set_zip split: if_splits
           intro!: exI[of _ "searchsorted (data_ts b) ts"])

lemma by_ts_Inl: "by_ts b ts = Inl e \<Longrightarrow> e = ValueError"
  by (auto simp: by_ts_def Let_def split: if_splits)

lemma by_ts_missing:
  assumes "ts \<notin> set (data_ts b)"
  shows "by_ts b ts = Inl ValueError"
proof (cases "by_ts b ts")
  case (Inl e) then show ?thesis using by_ts_Inl by blast
next
  case (Inr d)
  then have "(ts, d) \<in> set (zip (data_ts b) (data b))" by (rule by_ts_Inr)
  then have "ts \<in> set (data_ts b)" by (rule set_zip_leftD)
  with assms show ?thesis by simp
qed

lemma filter_index_range:
  assumes "\<forall>k<length ps. P (ps ! k) \<longleftrightarrow> i \<le> k \<and> k < j"
  shows "filter P ps = slice ps i j"
proof -
  have ps: "ps = take i ps @ take (j - i) (drop i ps) @ drop (j - i) (drop i ps)"
    by (metis append_take_drop_id)
  have a: "filter P (take i ps) = []"
    using assms by (auto simp: filter_empty_conv in_set_conv_nth)
  have b: "filter P (take (j - i) (drop i ps)) = take (j - i) (drop i ps)"
  proof (rule filter_True, clarsimp simp: in_set_conv_nth)
    fix k assume "k < length ps - i" "k < j - i"
    then have "i + k < length ps" "i \<le> i + k" "i + k < j" by auto
    with assms show "P (ps ! (i + k))" by blast
  qed
  have c: "filter P (drop (j - i) (drop i ps)) = []"
  proof (clarsimp simp: filter_empty_conv in_set_conv_nth)
    fix k assume k: "k < length ps - (j - i + i)" and p: "P (ps ! (j - i + i + k))"
    then have "j - i + i + k < length ps" by auto
    with assms p have "j - i + i + k < j" "i \<le> j - i + i + k" by blast+
    then show False by auto
  qed
  have "filter P ps = filter P (take i ps) @ filter P (take (j - i) (drop i ps)) @ filter P (drop (j - i) (drop i ps))"
    by (subst ps) (simp only: filter_append)
  then show ?thesis unfolding a b c slice_def by simp
qed

lemma slice_map: "slice (map f xs) i j = map f (slice xs i j)"
  by (simp add: slice_def take_map drop_map)

lemma by_ts_window_filter:
  assumes "bisector_inv b"
  shows "by_ts_window b (a, c) =
         map snd (filter (\<lambda>(t, d). a \<le> t \<and> t < c) (zip (data_ts b) (data b)))"
proof -
  let ?ps = "zip (data_ts b) (data b)"
  let ?i = "searchsorted (data_ts b) a" and ?j = "searchsorted (data_ts b) c"
  from assms have s: "sorted (data_ts b)" and len: "length (data_ts b) = length (data b)"
    by (simp_all add: bisector_inv_def)
  have "\<forall>k<length ?ps. (case ?ps ! k of (t, d) \<Rightarrow> a \<le> t \<and> t < c) \<longleftrightarrow> ?i \<le> k \<and> k < ?j"
    using searchsorted_iff[OF s, of _ a] searchsorted_iff[OF s, of _ c] len
    by (auto simp: not_less[symmetric])
  then have "filter (\<lambda>(t, d). a \<le> t \<and> t < c) ?ps = slice ?ps ?i ?j"
    by (rule filter_index_range)
  moreover have "map snd ?ps = data b" using len by simp
  ultimately have "map snd (filter (\<lambda>(t, d). a \<le> t \<and> t < c) ?ps) = slice (data b) ?i ?j"
    by (simp add: slice_map[symmetric])
  then show ?thesis by (simp add: by_ts_window_def start_stop_idc_for_window_def)
qed

lemma sorted_list_insert:
  assumes "sorted xs"
  shows "sorted (list_insert xs (searchsorted xs v) v)"
proof -
  let ?i = "searchsorted xs v"
  have xs: "sorted (take ?i xs)" "sorted (drop ?i xs)"
    using assms by (simp_all add: sorted_wrt_take sorted_wrt_drop)
  have lo: "\<forall>x\<in>set (take ?i xs). x \<le> v"
    using searchsorted_sorted(1)[OF assms, of v] by (fastforce simp: in_set_conv_nth)
  have hi: "\<forall>y\<in>set (drop ?i xs). v \<le> y"
    using searchsorted_sorted(2)[OF assms, of v] by (fastforce simp: in_set_conv_nth)
  have cross: "\<forall>x\<in>set (take ?i xs). \<forall>y\<in>set (drop ?i xs). x \<le> y"
    using lo hi by force
  show ?thesis
    unfolding list_insert_def using xs lo hi cross by (simp add: sorted_append)
qed

lemma insert_datum_inv:
  assumes "bisector_inv b"
  shows "bisector_inv (insert_datum b ts datum)"
  using assms sorted_list_insert[of "data_ts b" ts] searchsorted_le_length[of "data_ts b" ts]
  by (simp add: bisector_inv_def insert_datum_def Let_def list_insert_def)

lemma mset_list_insert_zip:
  assumes "length xs = length ys"
  shows "mset (zip (list_insert xs i x) (list_insert ys i y)) = add_mset (x, y) (mset (zip xs ys))"
proof -
  have "zip (take i xs @ x # drop i xs) (take i ys @ y # drop i ys)
        = zip (take i xs) (take i ys) @ (x, y) # zip (drop i xs) (drop i ys)"
    using assms by (simp add: zip_append)
  moreover have "zip xs ys = zip (take i xs) (take i ys) @ zip (drop i xs) (drop i ys)"
    by (metis append_take_drop_id take_zip drop_zip)
  ultimately show ?thesis by (simp add: list_insert_def)
qed

lemma insert_datum_mset:
  assumes "bisector_inv b"
  shows "mset (zip (data_ts (insert_datum b ts datum)) (data (insert_datum b ts datum)))
         = add_mset (ts, datum) (mset (zip (data_ts b) (data b)))"
  using assms mset_list_insert_zip[of "data_ts b" "data b"]
  by (simp add: bisector_inv_def insert_datum_def Let_def)

section \<open>Affiliator: construction and window lookup\<close>

lemma searchsorted_takeWhile:
  assumes "sorted arr"
  shows "searchsorted arr key = length (takeWhile (\<lambda>x. x < key) arr)"
proof -
  let ?r = "searchsorted arr key"
  have "takeWhile (\<lambda>x. x < key) arr = take ?r arr"
  proof (rule takeWhile_eq_take_P_nth)
    fix i assume "i < ?r" "i < length arr"
    then show "arr ! i < key" using searchsorted_sorted(1)[OF assms, of key] by simp
  next
    assume "?r < length arr"
    then have "key \<le> arr ! ?r" using searchsorted_sorted(2)[OF assms, of key] by simp
    then show "\<not> arr ! ?r < key" by simp
  qed
  then show ?thesis using searchsorted_le_length[of arr key] by simp
qed

lemma Bisector_init_fields:
  assumes "Bisector_init dat ts = Inr b"
  shows "mset (sorted_idc b) = mset [0..<length ts]"
    "data_ts b = map (\<lambda>i. ts ! i) (sorted_idc b)" "data b = map (\<lambda>i. dat ! i) (sorted_idc b)"
  using assms mset_argsort[of ts]
  by (auto simp: Bisector_init_def Let_def split: if_splits)

lemma Affiliator_init_fields:
  assumes "Affiliator_init dat starts stops = Inr A"
  shows "length dat = length starts" "\<forall>i\<in>set (sorted_idc A). i < length stops"
    "mset (sorted_idc A) = mset [0..<length dat]"
    "data A = map (\<lambda>i. dat ! i) (sorted_idc A)"
    "data_ts A = map (\<lambda>i. starts ! i) (sorted_idc A)"
    "stop_ts A = map (\<lambda>i. stops ! i) (sorted_idc A)"
    "sorted (data_ts A)"
proof -
  from assms obtain b where b: "Bisector_init dat starts = Inr b"
    and nb: "\<not> (\<exists>i\<in>set (sorted_idc b). length stops \<le> i)"
    and A: "A = \<lparr>data = data b, data_ts = data_ts b, sorted_idc = sorted_idc b,
                    stop_ts = map (\<lambda>i. stops ! i) (sorted_idc b)\<rparr>"
    by (auto simp: Affiliator_init_def split: sum.splits if_splits)
  from b show "length dat = length starts" by (auto simp: Bisector_init_def split: if_splits)
  then have len: "length dat = length starts" .
  from nb A show "\<forall>i\<in>set (sorted_idc A). i < length stops" by (auto simp: not_le)
  note f = Bisector_init_inv[OF b] Bisector_init_fields[OF b]
  from f A len show "mset (sorted_idc A) = mset [0..<length dat]" by simp
  from f A show "data A = map (\<lambda>i. dat ! i) (sorted_idc A)" by simp
  from f A show "data_ts A = map (\<lambda>i. starts ! i) (sorted_idc A)" by simp
  from A show "stop_ts A = map (\<lambda>i. stops ! i) (sorted_idc A)" by simp
  from f A show "sorted (data_ts A)" by (simp add: bisector_inv_def)
qed

lemma Affiliator_intervals_mset:
  assumes "Affiliator_init dat starts stops = Inr A"
  shows "mset (intervals A) = mset (zip dat (zip starts stops))"
proof -
  note f = Affiliator_init_fields[OF assms]
  let ?g = "\<lambda>i. (dat ! i, starts ! i, stops ! i)"
  have "intervals A = map ?g (sorted_idc A)"
    unfolding intervals_def f(4,5,6) by (simp add: zip_map_same)
  then have "mset (intervals A) = image_mset ?g (mset (sorted_idc A))" by simp
  also have "\<dots> = mset (map ?g [0..<length dat])" by (simp add: f(3))
  also have "map ?g [0..<length dat] = zip dat (zip starts stops)"
  proof -
    have "\<forall>i<length dat. i < length stops"
      using f(2) f(3) by (metis atLeastLessThan_iff mset_eq_setD set_upt zero_le)
    then have le: "length dat \<le> length stops" by (meson leI less_irrefl)
    show ?thesis
      by (rule nth_equalityI) (use f(1) le in simp_all)
  qed
  finally show ?thesis .
qed

lemma Affiliator_window_filter:
  assumes len: "length (data_ts A) = length (data A)" "length (stop_ts A) = length (data A)"
    and s: "sorted (data_ts A)" "sorted (stop_ts A)"
  shows "Affiliator_by_ts_window A (a, b)
         = map fst (filter (\<lambda>(d, s, e). a \<le> e \<and> s < b) (intervals A))"
proof -
  let ?ps = "intervals A"
  let ?i = "searchsorted (stop_ts A) a" and ?j = "searchsorted (data_ts A) b"
  have "\<forall>k<length ?ps. (case ?ps ! k of (d, s, e) \<Rightarrow> a \<le> e \<and> s < b) \<longleftrightarrow> ?i \<le> k \<and> k < ?j"
    using searchsorted_iff[OF s(2), of _ a] searchsorted_iff[OF s(1), of _ b] len
    by (auto simp: intervals_def not_less[symmetric])
  then have "filter (\<lambda>(d, s, e). a \<le> e \<and> s < b) ?ps = slice ?ps ?i ?j"
    by (rule filter_index_range)
  moreover have "map fst ?ps = data A" using len by (simp add: intervals_def)
  ultimately have "map fst (filter (\<lambda>(d, s, e). a \<le> e \<and> s < b) ?ps) = slice (data A) ?i ?j"
    by (simp add: slice_map[symmetric])
  then show ?thesis
    by (simp add: Affiliator_by_ts_window_def Affiliator_start_stop_idc_for_window_def Let_def)
qed

section \<open>The correlation loop\<close>

text \<open>The three ways one turn of the loop can go, then the invariant through the whole
  loop by computation induction.\<close>

lemma correlate_loop_stop:
  "\<not> (di < length dat \<and> fi + 1 < length tss) \<Longrightarrow> correlate_loop dat tss fi di dbf = dbf"
  by (subst correlate_loop.simps) (auto simp: Let_def)

lemma correlate_loop_assign:
  "di < length dat \<Longrightarrow> fi + 1 < length tss \<Longrightarrow> timestamp (dat ! di) \<le> midpoint tss fi \<Longrightarrow>
   correlate_loop dat tss fi di dbf
     = correlate_loop dat tss fi (di + 1) (dbf[fi := dbf ! fi @ [dat ! di]])"
  by (subst correlate_loop.simps) (simp add: Let_def midpoint_def)

lemma correlate_loop_advance:
  "di < length dat \<Longrightarrow> fi + 1 < length tss \<Longrightarrow> \<not> timestamp (dat ! di) \<le> midpoint tss fi \<Longrightarrow>
   correlate_loop dat tss fi di dbf = correlate_loop dat tss (fi + 1) di dbf"
  by (subst correlate_loop.simps) (simp add: Let_def midpoint_def)

lemma length_correlate_loop:
  "length (correlate_loop dat tss fi di dbf) = length dbf"
proof (induction dat tss fi di dbf rule: correlate_loop.induct)
  case (1 dat tss fi di dbf)
  show ?case
  proof (cases "di < length dat \<and> fi + 1 < length tss")
    case False
    then have "correlate_loop dat tss fi di dbf = dbf" by (rule correlate_loop_stop)
    then show ?thesis by simp
  next
    case True
    define ts where "ts = (tss ! fi + tss ! (fi + 1)) / 2"
    have mid: "ts = midpoint tss fi" by (simp add: ts_def midpoint_def)
    show ?thesis
    proof (cases "timestamp (dat ! di) \<le> ts")
      case le: True
      from "1.IH"(1)[OF True refl ts_def le] show ?thesis
        using correlate_loop_assign[of di dat fi tss dbf] True le mid by simp
    next
      case gt: False
      from "1.IH"(2)[OF True refl ts_def gt] show ?thesis
        using correlate_loop_advance[of di dat fi tss dbf] True gt mid by simp
    qed
  qed
qed

lemma concat_all_empty: "(\<forall>xs\<in>set xss. xs = []) \<Longrightarrow> concat xss = []"
  by (induction xss) simp_all

lemma concat_update_append:
  assumes "i < length xss" "\<forall>f. i < f \<and> f < length xss \<longrightarrow> xss ! f = []"
  shows "concat (xss[i := xss ! i @ [x]]) = concat xss @ [x]"
proof -
  have tl: "concat (drop (Suc i) xss) = []"
    using assms(2) by (intro concat_all_empty) (auto simp: in_set_conv_nth)
  have "xss = take i xss @ xss ! i # drop (Suc i) xss"
    using assms(1) by (rule id_take_nth_drop)
  then have a: "concat xss = concat (take i xss) @ xss ! i"
    using tl by (metis append_Nil2 concat.simps(2) concat_append)
  have "xss[i := xss ! i @ [x]] = take i xss @ (xss ! i @ [x]) # drop (Suc i) xss"
    using assms(1) by (rule upd_conv_take_nth_drop)
  then have "concat (xss[i := xss ! i @ [x]]) = concat (take i xss) @ (xss ! i @ [x])"
    using tl by simp
  with a show ?thesis by simp
qed

lemma corr_inv_assign:
  assumes inv: "corr_inv dat tss fi di dbf"
    and c: "di < length dat" "fi + 1 < length tss"
    and le: "timestamp (dat ! di) \<le> midpoint tss fi"
  shows "corr_inv dat tss fi (di + 1) (dbf[fi := dbf ! fi @ [dat ! di]])"
proof -
  from inv have len: "length dbf = length tss" and cc: "concat dbf = take di dat"
    and emp: "\<forall>f. fi < f \<and> f < length dbf \<longrightarrow> dbf ! f = []"
    and bk: "\<forall>f<length dbf. \<forall>e\<in>set (dbf ! f).
        f + 1 < length tss \<and> timestamp e \<le> midpoint tss f \<and> (\<forall>j<f. midpoint tss j < timestamp e)"
    and rest: "\<forall>j<fi. \<forall>d. di \<le> d \<and> d < length dat \<longrightarrow> midpoint tss j < timestamp (dat ! d)"
    by (simp_all add: corr_inv_def)
  have fi: "fi < length dbf" using c(2) len by simp
  let ?dbf = "dbf[fi := dbf ! fi @ [dat ! di]]"
  have 1: "concat ?dbf = take (di + 1) dat"
    using concat_update_append[OF fi emp] cc c(1) by (simp add: take_Suc_conv_app_nth)
  have 2: "\<forall>f. fi < f \<and> f < length ?dbf \<longrightarrow> ?dbf ! f = []"
    using emp by simp
  have 3: "\<forall>f<length ?dbf. \<forall>e\<in>set (?dbf ! f).
        f + 1 < length tss \<and> timestamp e \<le> midpoint tss f \<and> (\<forall>j<f. midpoint tss j < timestamp e)"
  proof (intro allI impI ballI)
    fix f e assume f: "f < length ?dbf" and e: "e \<in> set (?dbf ! f)"
    show "f + 1 < length tss \<and> timestamp e \<le> midpoint tss f \<and> (\<forall>j<f. midpoint tss j < timestamp e)"
    proof (cases "f = fi \<and> e = dat ! di")
      case True
      then show ?thesis using c le rest by auto
    next
      case False
      then have "e \<in> set (dbf ! f)" using e f fi by (cases "f = fi") auto
      then show ?thesis using bk f by simp
    qed
  qed
  have 4: "\<forall>j<fi. \<forall>d. di + 1 \<le> d \<and> d < length dat \<longrightarrow> midpoint tss j < timestamp (dat ! d)"
    using rest by simp
  show ?thesis
    unfolding corr_inv_def using len c(1) 1 2 3 4 by simp
qed

lemma corr_inv_advance:
  assumes inv: "corr_inv dat tss fi di dbf"
    and s: "sorted (map timestamp dat)"
    and c: "di < length dat"
    and gt: "\<not> timestamp (dat ! di) \<le> midpoint tss fi"
  shows "corr_inv dat tss (fi + 1) di dbf"
proof -
  from inv have rest: "\<forall>j<fi. \<forall>d. di \<le> d \<and> d < length dat \<longrightarrow> midpoint tss j < timestamp (dat ! d)"
    by (simp add: corr_inv_def)
  have "\<forall>j<fi + 1. \<forall>d. di \<le> d \<and> d < length dat \<longrightarrow> midpoint tss j < timestamp (dat ! d)"
  proof (intro allI impI)
    fix j d assume j: "j < fi + 1" and d: "di \<le> d \<and> d < length dat"
    show "midpoint tss j < timestamp (dat ! d)"
    proof (cases "j = fi")
      case True
      have "map timestamp dat ! di \<le> map timestamp dat ! d"
        using s d by (intro sorted_nth_mono) simp_all
      then have "timestamp (dat ! di) \<le> timestamp (dat ! d)" using d c by simp
      with gt True show ?thesis by simp
    next
      case False
      with j have "j < fi" by simp
      with rest d show ?thesis by blast
    qed
  qed
  with inv show ?thesis by (simp add: corr_inv_def)
qed

lemma correlate_loop_inv:
  assumes "sorted (map timestamp dat)" "corr_inv dat tss fi di dbf"
  shows "\<exists>fi' di'. corr_inv dat tss fi' di' (correlate_loop dat tss fi di dbf) \<and>
                   (length dat \<le> di' \<or> length tss \<le> fi' + 1)"
  using assms
proof (induction dat tss fi di dbf rule: correlate_loop.induct)
  case (1 dat tss fi di dbf)
  show ?case
  proof (cases "di < length dat \<and> fi + 1 < length tss")
    case False
    then have "correlate_loop dat tss fi di dbf = dbf"
      by (rule correlate_loop_stop)
    with False "1.prems"(2) show ?thesis by (metis not_le_imp_less)
  next
    case True
    define ts where "ts = (tss ! fi + tss ! (fi + 1)) / 2"
    have mid: "ts = midpoint tss fi" by (simp add: ts_def midpoint_def)
    show ?thesis
    proof (cases "timestamp (dat ! di) \<le> ts")
      case le: True
      have eq: "correlate_loop dat tss fi di dbf
                = correlate_loop dat tss fi (di + 1) (dbf[fi := dbf ! fi @ [dat ! di]])"
        using True le mid by (intro correlate_loop_assign) simp_all
      have "corr_inv dat tss fi (di + 1) (dbf[fi := dbf ! fi @ [dat ! di]])"
        using corr_inv_assign[OF "1.prems"(2)] True le mid by simp
      from "1.IH"(1)[OF True refl ts_def le "1.prems"(1) this] show ?thesis
        unfolding eq .
    next
      case gt: False
      have eq: "correlate_loop dat tss fi di dbf = correlate_loop dat tss (fi + 1) di dbf"
        using True gt mid by (intro correlate_loop_advance) simp_all
      have "corr_inv dat tss (fi + 1) di dbf"
        using corr_inv_advance[OF "1.prems"(2,1)] True gt mid by simp
      from "1.IH"(2)[OF True refl ts_def gt "1.prems"(1) this] show ?thesis
        unfolding eq .
    qed
  qed
qed

lemma corr_inv_init: "corr_inv dat tss 0 0 (map (\<lambda>i. []) tss)"
  by (simp add: corr_inv_def)

lemma correlate_data_final:
  fixes dat :: "'a datum list"
  shows "\<exists>fi di. corr_inv (sort_key timestamp dat) tss fi di (data_by_frame (correlate_data dat tss)) \<and>
         (length dat \<le> di \<or> length tss \<le> fi + 1)"
proof -
  have "sorted (map timestamp (sort_key timestamp dat))" by simp
  from correlate_loop_inv[OF this corr_inv_init, of tss]
  show ?thesis by (simp add: correlate_data_def Let_def)
qed

lemma sorted_midpoint_mono:
  assumes "sorted tss" "i \<le> j" "j + 1 < length tss"
  shows "midpoint tss i \<le> midpoint tss j"
proof -
  have "tss ! i \<le> tss ! j" "tss ! (i + 1) \<le> tss ! (j + 1)"
    using assms by (auto intro: sorted_nth_mono)
  then show ?thesis by (simp add: midpoint_def)
qed

section \<open>The migration run: which steps are called\<close>

lemmas step_defs =
  convert_pupil_mobile_recording_to_v094_def update_recording_bytes_to_unicode_def
  update_recording_v073_to_v074_def update_recording_v05_to_v074_def
  update_recording_v04_to_v074_def update_recording_v03_to_v074_def
  update_recording_v074_to_v082_def update_recording_v082_to_v083_def
  update_recording_v083_to_v086_def update_recording_v086_to_v087_def
  update_recording_v087_to_v091_def update_recording_v091_to_v093_def
  update_recording_v093_to_v094_def update_recording_v094_to_v0913_def
  update_recording_v0913_to_v0915_def update_recording_v0915_v13_def
  update_recording_v13_v14_def check_for_worldless_recording_def
  update_recording_v14_v18_def update_recording_v18_v19_def

lemmas prim_defs =
  raise_def enter_def run_if_def exists_file_def save_file_def fm_load_object_def np_load_def
  os_rename_def copy2_def splitext_def in_rec_dir_def glob_time_def load_meta_info_def
  update_meta_info_def update_info_version_to_def rewrite_pupil_data_def PLData_Writer_def
  legacy_topic_mapping_def logger_Error_def existing_locs_def np_fromfile_def

lemma pv14: "parse_version ''1.4'' = Inr (1, 4, 0)"
  by (simp add: parse_version_def parse_component_def digit_val_def)

lemma pv02: "parse_version ''0.2'' = Inr (0, 2, 0)"
  by (simp add: parse_version_def parse_component_def digit_val_def)


lemma seq_raised: "raised r \<noteq> None \<Longrightarrow> seq fs r = r"
  by (cases fs) auto

lemma calls_seq: "list_all keeps_calls fs \<Longrightarrow> calls (seq fs r) = calls r"
  by (induction fs arbitrary: r) (simp_all add: keeps_calls_def)

lemma keeps_calls_seq: "list_all keeps_calls fs \<Longrightarrow> keeps_calls (seq fs)"
  by (simp add: keeps_calls_def calls_seq)

lemma calls_seqI:
  "(\<And>f r'. f \<in> set fs \<Longrightarrow> calls (f r') = calls r') \<Longrightarrow> calls (seq fs r) = calls r"
  by (rule calls_seq) (simp add: list_all_iff keeps_calls_def)

lemma calls_run_if [simp]: "calls (run_if c f r) = (if c then calls (f r) else calls r)"
  by (simp add: run_if_def)

lemma calls_prims [simp]:
  "calls (raise e r) = calls r" "calls (save_file n c r) = calls r"
  "calls (os_rename a b r) = calls r" "calls (copy2 a b r) = calls r"
  "calls (update_meta_info m r) = calls r" "calls (update_info_version_to v r) = calls r"
  "calls (rewrite_pupil_data ks r) = calls r" "calls (PLData_Writer n r) = calls r"
  "calls (logger_Error r) = calls r"
  by (auto simp: prim_defs split: option.splits sum.splits content.splits)

lemma keeps_calls_run_if [simp]: "keeps_calls f \<Longrightarrow> keeps_calls (run_if c f)"
  by (simp add: keeps_calls_def run_if_def)

lemma calls_convert_time_file [simp]: "calls (convert_time_file t r) = calls r"
  unfolding convert_time_file_def
  by (auto simp: Let_def simp del: seq.simps split: list.splits intro!: calls_seqI)

lemma calls_convert_cam2_time_file [simp]: "calls (convert_cam2_time_file t r) = calls r"
  unfolding convert_cam2_time_file_def
  by (auto simp: Let_def simp del: seq.simps split: list.splits intro!: calls_seqI)

lemma keeps_calls_map [simp]: "(\<And>t. keeps_calls (g t)) \<Longrightarrow> list_all keeps_calls (map g ts)"
  by (induction ts) simp_all

lemma enter_seq_appends:
  "(\<And>f r. f \<in> set fs \<Longrightarrow> calls (f r) = calls r) \<Longrightarrow> appends (seq (enter S # fs)) [S]"
  by (simp add: appends_def calls_seqI enter_def)

lemma appends_steps:
  "appends convert_pupil_mobile_recording_to_v094 [Convert_pupil_mobile_recording_to_v094]"
  "appends update_recording_bytes_to_unicode [Update_recording_bytes_to_unicode]"
  "appends update_recording_v073_to_v074 [Update_recording_v073_to_v074]"
  "appends update_recording_v05_to_v074 [Update_recording_v05_to_v074]"
  "appends update_recording_v04_to_v074 [Update_recording_v04_to_v074]"
  "appends update_recording_v03_to_v074 [Update_recording_v03_to_v074]"
  "appends update_recording_v074_to_v082 [Update_recording_v074_to_v082]"
  "appends update_recording_v082_to_v083 [Update_recording_v082_to_v083]"
  "appends update_recording_v083_to_v086 [Update_recording_v083_to_v086]"
  "appends update_recording_v086_to_v087 [Update_recording_v086_to_v087]"
  "appends update_recording_v087_to_v091 [Update_recording_v087_to_v091]"
  "appends update_recording_v091_to_v093 [Update_recording_v091_to_v093]"
  "appends update_recording_v093_to_v094 [Update_recording_v093_to_v094]"
  "appends update_recording_v094_to_v0913 [Update_recording_v094_to_v0913]"
  "appends update_recording_v0913_to_v0915 [Update_recording_v0913_to_v0915]"
  "appends update_recording_v0915_v13 [Update_recording_v0915_v13]"
  "appends update_recording_v13_v14 [Update_recording_v13_v14]"
  "appends check_for_worldless_recording [Check_for_worldless_recording]"
  "appends update_recording_v14_v18 [Update_recording_v14_v18]"
  "appends update_recording_v18_v19 [Update_recording_v18_v19]"
  unfolding step_defs
  by (rule enter_seq_appends;
      auto simp: Let_def simp del: seq.simps intro!: calls_seqI
           split: sum.splits option.splits error.splits prod.splits)+

lemma stmt_calls_appends: "appends f t \<Longrightarrow> stmt_calls f t True"
  by (simp add: stmt_calls_def appends_def)

lemma stmt_calls_run_if: "appends f t \<Longrightarrow> stmt_calls (run_if c f) (if c then t else []) True"
  by (simp add: stmt_calls_def appends_def run_if_def)

lemma seq_stmt_calls:
  assumes "list_all2 (\<lambda>f (t, ok). stmt_calls f t ok) fs tos"
    and "raised r = None" "raised (seq fs r) = None"
  shows "calls (seq fs r) = calls r @ concat (map fst tos) \<and> list_all snd tos"
  using assms
proof (induction fs tos arbitrary: r rule: list_all2_induct)
  case Nil
  then show ?case by simp
next
  case (Cons f fs p tos)
  obtain t ok where p: "p = (t, ok)" by (cases p)
  from Cons.hyps(1) p have sc: "stmt_calls f t ok" by simp
  from Cons.prems have s: "seq (f # fs) r = seq fs (f r)" by simp
  have nr: "raised (f r) = None"
  proof (rule ccontr)
    assume "raised (f r) \<noteq> None"
    then have "seq fs (f r) = f r" by (rule seq_raised)
    with s Cons.prems(2) \<open>raised (f r) \<noteq> None\<close> show False by simp
  qed
  from sc Cons.prems(1) nr have c: "calls (f r) = calls r @ t" and ok: ok
    by (auto simp: stmt_calls_def)
  from Cons.IH[OF nr] Cons.prems(2) s
  have "calls (seq fs (f r)) = calls (f r) @ concat (map fst tos) \<and> list_all snd tos" by simp
  with c ok p s show ?case by simp
qed

lemma ge_0_3_0:
  "(0, 7, 4) \<le> v \<Longrightarrow> (0, 3, 0) \<le> (v :: VersionFormat)"
  "(0, 7, 3) \<le> v \<Longrightarrow> (0, 3, 0) \<le> (v :: VersionFormat)"
  "(0, 5, 0) \<le> v \<Longrightarrow> (0, 3, 0) \<le> (v :: VersionFormat)"
  "(0, 4, 0) \<le> v \<Longrightarrow> (0, 3, 0) \<le> (v :: VersionFormat)"
  by (erule order_trans[rotated], simp)+

lemma legacy_stmt_calls:
  "stmt_calls
     (if v \<ge> (0, 7, 4) then id
      else if v \<ge> (0, 7, 3) then update_recording_v073_to_v074
      else if v \<ge> (0, 5, 0) then update_recording_v05_to_v074
      else if v \<ge> (0, 4, 0) then update_recording_v04_to_v074
      else if v \<ge> (0, 3, 0) then update_recording_v03_to_v074
      else logger_Error)
     (legacy_calls v) ((0, 3, 0) \<le> v)"
proof -
  consider (a) "(0, 7, 4) \<le> v"
    | (b) "\<not> (0, 7, 4) \<le> v" "(0, 7, 3) \<le> v"
    | (c) "\<not> (0, 7, 4) \<le> v" "\<not> (0, 7, 3) \<le> v" "(0, 5, 0) \<le> v"
    | (d) "\<not> (0, 7, 4) \<le> v" "\<not> (0, 7, 3) \<le> v" "\<not> (0, 5, 0) \<le> v" "(0, 4, 0) \<le> v"
    | (e) "\<not> (0, 7, 4) \<le> v" "\<not> (0, 7, 3) \<le> v" "\<not> (0, 5, 0) \<le> v" "\<not> (0, 4, 0) \<le> v"
          "(0, 3, 0) \<le> v"
    | (f) "\<not> (0, 7, 4) \<le> v" "\<not> (0, 7, 3) \<le> v" "\<not> (0, 5, 0) \<le> v" "\<not> (0, 4, 0) \<le> v"
          "\<not> (0, 3, 0) \<le> v"
    by blast
  then show ?thesis
  proof cases
    case a
    then show ?thesis using ge_0_3_0(1)[OF a]
      by (simp add: stmt_calls_def legacy_calls_def)
  next
    case b
    then show ?thesis using ge_0_3_0(2)[OF b(2)] appends_steps(3)
      by (simp add: stmt_calls_def legacy_calls_def appends_def)
  next
    case c
    then show ?thesis using ge_0_3_0(3)[OF c(3)] appends_steps(4)
      by (simp add: stmt_calls_def legacy_calls_def appends_def)
  next
    case d
    then show ?thesis using ge_0_3_0(4)[OF d(4)] appends_steps(5)
      by (simp add: stmt_calls_def legacy_calls_def appends_def)
  next
    case e
    then show ?thesis using appends_steps(6)
      by (simp add: stmt_calls_def legacy_calls_def appends_def)
  next
    case f
    then show ?thesis
      by (simp add: stmt_calls_def legacy_calls_def logger_Error_def raise_def)
  qed
qed

lemma map_snd_filter_Cons:
  "map snd (filter P ((th, s) # xs)) = (if P (th, s) then [s] else []) @ map snd (filter P xs)"
  by simp

lemma run_unfold:
  assumes "raised r0 = None" "load_meta_info r0 = Inr m"
    "map_of m ''Data Format Version'' = Some dfv" "rrv m = Inr v"
  shows "update_recording_to_recent (Some rrv) r0 = seq (run_stmts v) (update_meta_info m r0)"
  using assms
  by (simp add: update_recording_to_recent_def run_stmts_def update_meta_info_def Let_def del: seq.simps)

lemma run_rel: "list_all2 (\<lambda>f (t, ok). stmt_calls f t ok) (run_stmts v) (run_tos v)"
  unfolding run_stmts_def run_tos_def
  by (intro list_all2_Cons[THEN iffD2] conjI list_all2_Nil[THEN iffD2];
      simp only: prod.case;
      intro stmt_calls_run_if stmt_calls_appends appends_steps legacy_stmt_calls)

lemma plan_upto_14:
  "map snd (filter (\<lambda>(th, s). v < th \<and> th \<le> (1, 4, 0)) threshold_table)
      = (if v < (0, 8, 2) then [Update_recording_v074_to_v082] else [])
      @ (if v < (0, 8, 3) then [Update_recording_v082_to_v083] else [])
      @ (if v < (0, 8, 6) then [Update_recording_v083_to_v086] else [])
      @ (if v < (0, 8, 7) then [Update_recording_v086_to_v087] else [])
      @ (if v < (0, 9, 1) then [Update_recording_v087_to_v091] else [])
      @ (if v < (0, 9, 3) then [Update_recording_v091_to_v093] else [])
      @ (if v < (0, 9, 4) then [Update_recording_v093_to_v094] else [])
      @ (if v < (0, 9, 13) then [Update_recording_v094_to_v0913] else [])
      @ (if v < (0, 9, 15) then [Update_recording_v0913_to_v0915] else [])
      @ (if v < (1, 3, 0) then [Update_recording_v0915_v13] else [])
      @ (if v < (1, 4, 0) then [Update_recording_v13_v14] else [])"
  unfolding threshold_table_def map_snd_filter_Cons
  by (simp split del: if_split cong: if_cong)

lemma plan_after_14:
  "map snd (filter (\<lambda>(th, s). v < th \<and> (1, 4, 0) < th) threshold_table)
      = (if v < (1, 8, 0) then [Update_recording_v14_v18] else [])
      @ (if v < (1, 9, 0) then [Update_recording_v18_v19] else [])"
  unfolding threshold_table_def map_snd_filter_Cons
  by (simp split del: if_split cong: if_cong)

lemma plan_all:
  "MigrationPlan_compute v
      = (if v < (0, 8, 2) then [Update_recording_v074_to_v082] else [])
      @ (if v < (0, 8, 3) then [Update_recording_v082_to_v083] else [])
      @ (if v < (0, 8, 6) then [Update_recording_v083_to_v086] else [])
      @ (if v < (0, 8, 7) then [Update_recording_v086_to_v087] else [])
      @ (if v < (0, 9, 1) then [Update_recording_v087_to_v091] else [])
      @ (if v < (0, 9, 3) then [Update_recording_v091_to_v093] else [])
      @ (if v < (0, 9, 4) then [Update_recording_v093_to_v094] else [])
      @ (if v < (0, 9, 13) then [Update_recording_v094_to_v0913] else [])
      @ (if v < (0, 9, 15) then [Update_recording_v0913_to_v0915] else [])
      @ (if v < (1, 3, 0) then [Update_recording_v0915_v13] else [])
      @ (if v < (1, 4, 0) then [Update_recording_v13_v14] else [])
      @ (if v < (1, 8, 0) then [Update_recording_v14_v18] else [])
      @ (if v < (1, 9, 0) then [Update_recording_v18_v19] else [])"
  unfolding MigrationPlan_compute_def threshold_table_def map_snd_filter_Cons
  by (simp split del: if_split cong: if_cong)

lemma concat_run_tos:
  "concat (map fst (run_tos v))
     = (if v \<le> (0, 8, 7) then [Update_recording_bytes_to_unicode] else [])
       @ legacy_calls v
       @ map snd (filter (\<lambda>(th, s). v < th \<and> th \<le> (1, 4, 0)) threshold_table)
       @ [Check_for_worldless_recording]
       @ map snd (filter (\<lambda>(th, s). v < th \<and> (1, 4, 0) < th) threshold_table)"
  unfolding plan_upto_14 plan_after_14 run_tos_def
  by (simp split del: if_split)

lemma run_ok_tos: "list_all snd (run_tos v) \<longleftrightarrow> (0, 3, 0) \<le> v"
  by (simp add: run_tos_def)

lemma run_calls:
  assumes "raised r0 = None" "load_meta_info r0 = Inr m"
    "map_of m ''Data Format Version'' = Some dfv" "rrv m = Inr v"
    "raised (update_recording_to_recent (Some rrv) r0) = None"
  shows "calls (update_recording_to_recent (Some rrv) r0)
         = calls r0 @ (if v \<le> (0, 8, 7) then [Update_recording_bytes_to_unicode] else [])
           @ legacy_calls v
           @ map snd (filter (\<lambda>(th, s). v < th \<and> th \<le> (1, 4, 0)) threshold_table)
           @ [Check_for_worldless_recording]
           @ map snd (filter (\<lambda>(th, s). v < th \<and> (1, 4, 0) < th) threshold_table)"
    and "(0, 3, 0) \<le> v"
proof -
  let ?r1 = "update_meta_info m r0"
  have r1: "raised ?r1 = None" "calls ?r1 = calls r0"
    using assms(1) by (simp_all add: update_meta_info_def)
  have run: "update_recording_to_recent (Some rrv) r0 = seq (run_stmts v) ?r1"
    using assms(1-4) by (rule run_unfold[where rrv=rrv and v=v and m=m and dfv=dfv])
  from seq_stmt_calls[OF run_rel r1(1), of v] assms(5) run
  have c: "calls (seq (run_stmts v) ?r1) = calls ?r1 @ concat (map fst (run_tos v))"
    and ok: "list_all snd (run_tos v)"
    by simp_all
  from ok show "(0, 3, 0) \<le> v" by (simp only: run_ok_tos)
  show "calls (update_recording_to_recent (Some rrv) r0)
         = calls r0 @ (if v \<le> (0, 8, 7) then [Update_recording_bytes_to_unicode] else [])
           @ legacy_calls v
           @ map snd (filter (\<lambda>(th, s). v < th \<and> th \<le> (1, 4, 0)) threshold_table)
           @ [Check_for_worldless_recording]
           @ map snd (filter (\<lambda>(th, s). v < th \<and> (1, 4, 0) < th) threshold_table)"
    unfolding run c r1(2) concat_run_tos ..
qed

lemma seq_stmt_calls_prefix:
  assumes "list_all2 (\<lambda>f (t, ok). stmt_calls f t ok) fs tos" "raised r = None"
  shows "\<exists>k\<le>length tos. calls (seq fs r) = calls r @ concat (map fst (take k tos))"
  using assms
proof (induction fs tos arbitrary: r rule: list_all2_induct)
  case Nil
  then show ?case by simp
next
  case (Cons f fs p tos)
  obtain t ok where p: "p = (t, ok)" by (cases p)
  from Cons.hyps(1) p Cons.prems have c: "calls (f r) = calls r @ t"
    by (simp add: stmt_calls_def)
  from Cons.prems have s: "seq (f # fs) r = seq fs (f r)" by simp
  show ?case
  proof (cases "raised (f r) = None")
    case True
    from Cons.IH[OF True] obtain k where "k \<le> length tos"
      "calls (seq fs (f r)) = calls (f r) @ concat (map fst (take k tos))" by blast
    with c p s show ?thesis by (intro exI[of _ "Suc k"]) simp
  next
    case False
    then have "seq fs (f r) = f r" by (rule seq_raised)
    with c p s show ?thesis by (intro exI[of _ "Suc 0"]) simp
  qed
qed

lemma run_calls_prefix:
  assumes "raised r0 = None" "load_meta_info r0 = Inr m"
    "map_of m ''Data Format Version'' = Some dfv" "rrv m = Inr v"
  shows "prefix (calls (update_recording_to_recent (Some rrv) r0))
         (calls r0 @ (if v \<le> (0, 8, 7) then [Update_recording_bytes_to_unicode] else [])
           @ legacy_calls v
           @ map snd (filter (\<lambda>(th, s). v < th \<and> th \<le> (1, 4, 0)) threshold_table)
           @ [Check_for_worldless_recording]
           @ map snd (filter (\<lambda>(th, s). v < th \<and> (1, 4, 0) < th) threshold_table))"
proof -
  let ?r1 = "update_meta_info m r0"
  have r1: "raised ?r1 = None" "calls ?r1 = calls r0"
    using assms(1) by (simp_all add: update_meta_info_def)
  have run: "update_recording_to_recent (Some rrv) r0 = seq (run_stmts v) ?r1"
    using assms(1-4) by (rule run_unfold[where rrv=rrv and v=v and m=m and dfv=dfv])
  from seq_stmt_calls_prefix[OF run_rel r1(1), of v] obtain k where
    k: "calls (seq (run_stmts v) ?r1) = calls ?r1 @ concat (map fst (take k (run_tos v)))"
    by blast
  have "prefix (concat (map fst (take k (run_tos v)))) (concat (map fst (run_tos v)))"
    by (metis append_take_drop_id concat_append map_append prefixI)
  then have "prefix (calls (update_recording_to_recent (Some rrv) r0)) (calls r0 @ concat (map fst (run_tos v)))"
    unfolding run k r1(2) by simp
  then show ?thesis unfolding concat_run_tos .
qed

lemma pv18: "parse_version ''1.8'' = Inr (1, 8, 0)"
  by (simp add: parse_version_def parse_component_def digit_val_def)

lemma pv090: "parse_version ''0.9.0'' = Inr (0, 9, 0)"
  by (simp add: parse_version_def parse_component_def digit_val_def)

lemma filter_threshold_if:
  "filter (\<lambda>s. s \<in> set threshold_steps) (if c then [x] else [])
     = (if c \<and> x \<in> set threshold_steps then [x] else [])"
  by (cases c) simp_all

lemma filter_threshold_plan:
  "filter (\<lambda>s. s \<in> set threshold_steps) (map snd (filter P threshold_table))
     = map snd (filter P threshold_table)"
  by (rule filter_True) (auto simp: threshold_steps_def)

lemma filter_threshold_legacy:
  "filter (\<lambda>s. s \<in> set threshold_steps) (legacy_calls v) = []"
  by (simp add: legacy_calls_def threshold_steps_def threshold_table_def)

lemma plan_split:
  "MigrationPlan_compute v
     = map snd (filter (\<lambda>(th, s). v < th \<and> th \<le> (1, 4, 0)) threshold_table)
       @ map snd (filter (\<lambda>(th, s). v < th \<and> (1, 4, 0) < th) threshold_table)"
  unfolding plan_all plan_upto_14 plan_after_14 by simp

lemma run_threshold_calls:
  assumes "raised r0 = None" "calls r0 = []" "load_meta_info r0 = Inr m"
    "map_of m ''Data Format Version'' = Some dfv" "rrv m = Inr v"
    "raised (update_recording_to_recent (Some rrv) r0) = None"
  shows "filter (\<lambda>s. s \<in> set threshold_steps) (calls (update_recording_to_recent (Some rrv) r0))
         = MigrationPlan_compute v"
proof -
  have "Check_for_worldless_recording \<notin> set threshold_steps"
       "Update_recording_bytes_to_unicode \<notin> set threshold_steps"
    by (simp_all add: threshold_steps_def threshold_table_def)
  then show ?thesis
    unfolding run_calls(1)[where rrv=rrv, OF assms(1,3,4,5,6)] assms(2) plan_split
    by (simp add: filter_threshold_plan filter_threshold_legacy split del: if_split)
qed

lemma plan_subseq:
  assumes "v1 \<le> v2"
  shows "subseq (MigrationPlan_compute v2) (MigrationPlan_compute v1)"
proof -
  have "filter (\<lambda>(th, s). v2 < th) threshold_table
        = filter (\<lambda>(th, s). v2 < th) (filter (\<lambda>(th, s). v1 < th) threshold_table)"
    using assms by (auto intro!: filter_cong)
  then have "subseq (filter (\<lambda>(th, s). v2 < th) threshold_table)
                    (filter (\<lambda>(th, s). v1 < th) threshold_table)"
    by (metis subseq_filter_left)
  then show ?thesis unfolding MigrationPlan_compute_def by (rule subseq_map)
qed

subsection \<open>A run that meets a missing file\<close>


lemma raise_fields:
  "raised (raise e r) = Some e" "calls (raise e r) = calls r"
  "info_csv (raise e r) = info_csv r" "files (raise e r) = files r"
  "load_meta_info (raise e r) = load_meta_info r"
  by (simp_all add: raise_def load_meta_info_def split: option.splits)

lemma update_meta_info_fields:
  "raised (update_meta_info m r) = raised r" "calls (update_meta_info m r) = calls r"
  "info_csv (update_meta_info m r) = Some m" "files (update_meta_info m r) = files r"
  "load_meta_info (update_meta_info m r) = Inr m"
  by (simp_all add: update_meta_info_def load_meta_info_def)

lemma seq_step: "raised r = None \<Longrightarrow> seq (f # fs) r = seq fs (f r)"
  by simp










lemma run_unbound:
  assumes "load_meta_info r0 = Inr m" "map_of m ''Data Format Version'' = Some dfv" "raised r0 = None"
  shows "update_recording_to_recent None r0 = raise NameError (update_meta_info m r0)"
  using assms
  by (simp add: update_recording_to_recent_def Let_def update_meta_info_fields)

lemma run_reader_error:
  assumes "load_meta_info r0 = Inr m" "map_of m ''Data Format Version'' = Some dfv" "raised r0 = None"
    "rrv m = Inl e"
  shows "update_recording_to_recent (Some rrv) r0 = raise e (update_meta_info m r0)"
  using assms
  by (simp add: update_recording_to_recent_def Let_def update_meta_info_fields)



lemma missing_inv_version:
  "missing_inv F r \<Longrightarrow> missing_inv F (update_info_version_to n r)"
  by (auto simp: missing_inv_def update_info_version_to_def load_meta_info_def update_meta_info_def)

lemma missing_inv_enter: "missing_inv F r \<Longrightarrow> missing_inv F (enter s r)"
  by (simp add: missing_inv_def enter_def)










subsection \<open>Facts for the claims on the run\<close>

lemma pv04: "parse_version ''0.4'' = Inr (0, 4, 0)"
  by (simp add: parse_version_def parse_component_def digit_val_def)

lemma pv05: "parse_version ''0.5'' = Inr (0, 5, 0)"
  by (simp add: parse_version_def parse_component_def digit_val_def)



lemma run_calls_cases:
  assumes "raised r0 = None" "load_meta_info r0 = Inr m"
    "map_of m ''Data Format Version'' = Some dfv"
  shows "calls (update_recording_to_recent b r0) = calls r0
         \<or> (\<exists>rrv v. b = Some rrv \<and> rrv m = Inr v
              \<and> prefix (calls (update_recording_to_recent b r0))
                  (calls r0 @ (if v \<le> (0, 8, 7) then [Update_recording_bytes_to_unicode] else [])
                    @ legacy_calls v
                    @ map snd (filter (\<lambda>(th, s). v < th \<and> th \<le> (1, 4, 0)) threshold_table)
                    @ [Check_for_worldless_recording]
                    @ map snd (filter (\<lambda>(th, s). v < th \<and> (1, 4, 0) < th) threshold_table)))"
proof (cases b)
  case None
  then show ?thesis
    using run_unbound[OF assms(2,3,1)] by (simp add: raise_fields update_meta_info_fields)
next
  case (Some rrv)
  show ?thesis
  proof (cases "rrv m")
    case (Inl e)
    then show ?thesis
      using Some run_reader_error[OF assms(2,3,1), of rrv e]
      by (simp add: raise_fields update_meta_info_fields)
  next
    case (Inr v)
    from run_calls_prefix[where rrv=rrv and v=v and m=m and dfv=dfv, OF assms(1,2,3) Inr]
    show ?thesis using Some Inr by blast
  qed
qed

lemma count_list_prefix: "prefix xs ys \<Longrightarrow> count_list xs a \<le> count_list ys a"
  by (auto elim!: prefixE)

lemma before_check:
  "Check_for_worldless_recording \<notin> set ((if v \<le> (0, 8, 7) then [Update_recording_bytes_to_unicode] else [])
      @ legacy_calls v
      @ map snd (filter (\<lambda>(th, s). v < th \<and> th \<le> (1, 4, 0)) threshold_table))"
  "Update_recording_v14_v18 \<notin> set ((if v \<le> (0, 8, 7) then [Update_recording_bytes_to_unicode] else [])
      @ legacy_calls v
      @ map snd (filter (\<lambda>(th, s). v < th \<and> th \<le> (1, 4, 0)) threshold_table))"
  "Update_recording_v18_v19 \<notin> set ((if v \<le> (0, 8, 7) then [Update_recording_bytes_to_unicode] else [])
      @ legacy_calls v
      @ map snd (filter (\<lambda>(th, s). v < th \<and> th \<le> (1, 4, 0)) threshold_table))"
  unfolding plan_upto_14 by (simp_all add: legacy_calls_def)

lemma after_check:
  "set (map snd (filter (\<lambda>(th, s). v < th \<and> (1, 4, 0) < th) threshold_table))
     \<subseteq> {Update_recording_v14_v18, Update_recording_v18_v19}"
  unfolding plan_after_14 by auto


lemma prefix_filter_threshold:
  assumes "raised r0 = None" "calls r0 = []" "load_meta_info r0 = Inr m"
    "map_of m ''Data Format Version'' = Some dfv" "rrv m = Inr v"
  shows "prefix (filter (\<lambda>s. s \<in> set threshold_steps) (calls (update_recording_to_recent (Some rrv) r0)))
           (MigrationPlan_compute v)"
proof -
  have nb: "Check_for_worldless_recording \<notin> set threshold_steps"
       "Update_recording_bytes_to_unicode \<notin> set threshold_steps"
    by (simp_all add: threshold_steps_def threshold_table_def)
  from run_calls_prefix[where rrv=rrv and v=v and m=m and dfv=dfv, OF assms(1,3,4,5)]
  obtain zs where
    "calls r0 @ (if v \<le> (0, 8, 7) then [Update_recording_bytes_to_unicode] else [])
       @ legacy_calls v
       @ map snd (filter (\<lambda>(th, s). v < th \<and> th \<le> (1, 4, 0)) threshold_table)
       @ [Check_for_worldless_recording]
       @ map snd (filter (\<lambda>(th, s). v < th \<and> (1, 4, 0) < th) threshold_table)
     = calls (update_recording_to_recent (Some rrv) r0) @ zs"
    by (auto elim!: prefixE)
  then have "filter (\<lambda>s. s \<in> set threshold_steps)
       (calls r0 @ (if v \<le> (0, 8, 7) then [Update_recording_bytes_to_unicode] else [])
       @ legacy_calls v
       @ map snd (filter (\<lambda>(th, s). v < th \<and> th \<le> (1, 4, 0)) threshold_table)
       @ [Check_for_worldless_recording]
       @ map snd (filter (\<lambda>(th, s). v < th \<and> (1, 4, 0) < th) threshold_table))
     = filter (\<lambda>s. s \<in> set threshold_steps) (calls (update_recording_to_recent (Some rrv) r0))
       @ filter (\<lambda>s. s \<in> set threshold_steps) zs"
    by (simp only: filter_append[symmetric])
  moreover have "filter (\<lambda>s. s \<in> set threshold_steps)
       (calls r0 @ (if v \<le> (0, 8, 7) then [Update_recording_bytes_to_unicode] else [])
       @ legacy_calls v
       @ map snd (filter (\<lambda>(th, s). v < th \<and> th \<le> (1, 4, 0)) threshold_table)
       @ [Check_for_worldless_recording]
       @ map snd (filter (\<lambda>(th, s). v < th \<and> (1, 4, 0) < th) threshold_table))
     = MigrationPlan_compute v"
    using nb unfolding assms(2) plan_split
    by (simp add: filter_threshold_plan filter_threshold_legacy split del: if_split)
  ultimately show ?thesis by (metis prefixI)
qed

section \<open>The claims on the timestamp index\<close>

text \<open>
  Claim C7. On an index built by the constructor from \<open>dat\<close> and \<open>ts\<close>, \<open>by_ts\<close>
  returns a datum exactly when the queried timestamp occurs in \<open>ts\<close>; the datum it
  returns is paired with that timestamp in the input; for every other timestamp, inside or
  outside the range of the index and also on the empty index, it raises ValueError (the
  spec's NotFoundError).
\<close>

theorem by_ts_exact:
  assumes "Bisector_init dat ts = Inr b"
  shows "((\<exists>d. by_ts b ts0 = Inr d) \<longleftrightarrow> ts0 \<in> set ts) \<and>
         (\<forall>d. by_ts b ts0 = Inr d \<longrightarrow> (ts0, d) \<in> set (zip ts dat)) \<and>
         (ts0 \<notin> set ts \<longrightarrow> by_ts b ts0 = Inl ValueError)"
proof -
  have i: "bisector_inv b" by (rule Bisector_init_inv[OF assms])
  have st: "set (data_ts b) = set ts" by (rule Bisector_init_set_ts[OF assms])
  have sz: "set (zip (data_ts b) (data b)) = set (zip ts dat)"
    using Bisector_init_mset[OF assms] by (metis set_mset_mset)
  have a: "ts0 \<in> set ts \<Longrightarrow> \<exists>d. by_ts b ts0 = Inr d"
    using by_ts_found[OF i, of ts0] st by blast
  have b: "ts0 \<notin> set ts \<Longrightarrow> by_ts b ts0 = Inl ValueError"
    using by_ts_missing[of ts0 b] st by simp
  have c: "\<And>d. by_ts b ts0 = Inr d \<Longrightarrow> (ts0, d) \<in> set (zip ts dat)"
    using by_ts_Inr[of b ts0] sz by simp
  from a b c show ?thesis by (metis Inl_Inr_False)
qed

theorem by_ts_exact_witness:
  "Bisector_init ''abc'' [5, 1, 3] = Inr \<lparr>data = ''bca'', data_ts = [1, 3, 5], sorted_idc = [1, 2, 0]\<rparr>
   \<and> by_ts \<lparr>data = ''bca'', data_ts = [1, 3, 5], sorted_idc = [1, 2, 0]\<rparr> 3 = Inr CHR ''c''
   \<and> by_ts \<lparr>data = ''bca'', data_ts = [1, 3, 5], sorted_idc = [1, 2, 0]\<rparr> 4 = Inl ValueError
   \<and> by_ts \<lparr>data = ''bca'', data_ts = [1, 3, 5], sorted_idc = [1, 2, 0]\<rparr> 9 = Inl ValueError
   \<and> Bisector_init ([] :: char list) [] = Inr \<lparr>data = [], data_ts = [], sorted_idc = []\<rparr>
   \<and> by_ts \<lparr>data = ([] :: char list), data_ts = [], sorted_idc = []\<rparr> 0 = Inl ValueError"
proof -
  let ?b = "\<lparr>data = ''bca'', data_ts = [1, 3, 5], sorted_idc = [1, 2, 0]\<rparr>"
  let ?e = "\<lparr>data = ([] :: char list), data_ts = [], sorted_idc = []\<rparr>"
  have h: "Bisector_init ''abc'' [5, 1, 3] = Inr ?b"
    by (simp add: Bisector_init_def argsort_def Let_def upt_rec)
  have e: "Bisector_init ([] :: char list) [] = Inr ?e"
    by (simp add: Bisector_init_def)
  have "by_ts ?b 3 = Inr CHR ''c''"
    by (simp add: by_ts_def searchsorted_def binsearch.simps Let_def)
  moreover have "by_ts ?b 4 = Inl ValueError" using by_ts_exact[OF h, of 4] by simp
  moreover have "by_ts ?b 9 = Inl ValueError" using by_ts_exact[OF h, of 9] by simp
  moreover have "by_ts ?e 0 = Inl ValueError" using by_ts_exact[OF e, of 0] by simp
  ultimately show ?thesis using h e by simp
qed

text \<open>
  Claim C8. On an index built by the constructor, \<open>by_ts_window\<close> for the window
  \<open>[a, c)\<close> returns the data of exactly the input pairs whose timestamp \<open>t\<close> satisfies
  \<open>a \<le> t < c\<close> (each as often as it occurs), in ascending timestamp order, as the
  contiguous slice of the data array between the two binary-search positions; it is empty
  when no timestamp lies in the window.
\<close>

theorem by_ts_window_exact:
  assumes "Bisector_init dat ts = Inr b"
  shows "(\<exists>ps. by_ts_window b (a, c) = map snd ps \<and> sorted (map fst ps) \<and>
               mset ps = filter_mset (\<lambda>(t, d). a \<le> t \<and> t < c) (mset (zip ts dat))) \<and>
         by_ts_window b (a, c) =
           slice (data b) (searchsorted (data_ts b) a) (searchsorted (data_ts b) c) \<and>
         ((\<forall>t\<in>set ts. \<not> (a \<le> t \<and> t < c)) \<longrightarrow> by_ts_window b (a, c) = [])"
proof -
  let ?P = "\<lambda>(t :: timestamp, d :: 'a). a \<le> t \<and> t < c"
  let ?ps = "filter ?P (zip (data_ts b) (data b))"
  have i: "bisector_inv b" by (rule Bisector_init_inv[OF assms])
  have w: "by_ts_window b (a, c) = map snd ?ps" by (rule by_ts_window_filter[OF i])
  have "map fst (zip (data_ts b) (data b)) = data_ts b"
    using i by (simp add: bisector_inv_def)
  then have "sorted (map fst (zip (data_ts b) (data b)))"
    using i by (simp add: bisector_inv_def)
  then have s: "sorted (map fst ?ps)" by (rule sorted_filter)
  have m: "mset ?ps = filter_mset ?P (mset (zip ts dat))"
    using Bisector_init_mset[OF assms] by (metis mset_filter)
  have ex: "\<exists>ps. by_ts_window b (a, c) = map snd ps \<and> sorted (map fst ps) \<and>
               mset ps = filter_mset ?P (mset (zip ts dat))"
    using w s m by blast
  have sl: "by_ts_window b (a, c) =
           slice (data b) (searchsorted (data_ts b) a) (searchsorted (data_ts b) c)"
    by (simp add: by_ts_window_def start_stop_idc_for_window_def)
  have em: "by_ts_window b (a, c) = []" if "\<forall>t\<in>set ts. \<not> (a \<le> t \<and> t < c)"
  proof -
    have "set (zip (data_ts b) (data b)) = set (zip ts dat)"
      using Bisector_init_mset[OF assms] by (metis set_mset_mset)
    then have "\<forall>p\<in>set (zip (data_ts b) (data b)). \<not> ?P p"
      using that by (auto dest: set_zip_leftD)
    then have "?ps = []" by (simp add: filter_empty_conv)
    with w show ?thesis by simp
  qed
  from ex sl em show ?thesis by blast
qed

theorem by_ts_window_exact_witness:
  "Bisector_init ''abc'' [5, 1, 3] = Inr \<lparr>data = ''bca'', data_ts = [1, 3, 5], sorted_idc = [1, 2, 0]\<rparr>
   \<and> by_ts_window \<lparr>data = ''bca'', data_ts = [1, 3, 5], sorted_idc = [1, 2, 0]\<rparr> (2, 6) = ''ca''
   \<and> by_ts_window \<lparr>data = ''bca'', data_ts = [1, 3, 5], sorted_idc = [1, 2, 0]\<rparr> (6, 9) = []"
proof -
  let ?b = "\<lparr>data = ''bca'', data_ts = [1, 3, 5], sorted_idc = [1, 2, 0]\<rparr>"
  have h: "Bisector_init ''abc'' [5, 1, 3] = Inr ?b"
    by (simp add: Bisector_init_def argsort_def Let_def upt_rec)
  have n: "\<forall>t\<in>set [5, 1, 3 :: timestamp]. \<not> (6 \<le> t \<and> t < 9)" by simp
  have "by_ts_window ?b (2, 6) = slice (data ?b) (searchsorted (data_ts ?b) 2) (searchsorted (data_ts ?b) 6)"
    using by_ts_window_exact[OF h, of 2 6] by blast
  then have "by_ts_window ?b (2, 6) = ''ca''"
    by (simp add: slice_def searchsorted_def binsearch.simps Let_def)
  moreover have "by_ts_window ?b (6, 9) = []"
    using by_ts_window_exact[OF h, of 6 9] n by blast
  ultimately show ?thesis using h by blast
qed

text \<open>
  Claim C9. The invariant (arrays of equal length, timestamps ascending) is established by
  the constructor, which reorders both arrays by one permutation of the indices and accepts
  empty input, and is preserved by \<open>Mutable_Bisector.insert\<close>, which adds exactly the new
  pair.
\<close>

theorem bisector_invariant:
  "(Bisector_init dat ts = Inr b \<longrightarrow>
      bisector_inv b \<and> mset (sorted_idc b) = mset [0..<length ts] \<and>
      data_ts b = map (\<lambda>i. ts ! i) (sorted_idc b) \<and> data b = map (\<lambda>i. dat ! i) (sorted_idc b)) \<and>
   (\<exists>e. Bisector_init ([] :: 'a list) [] = Inr e \<and> bisector_inv e \<and> data e = [] \<and> data_ts e = []) \<and>
   (bisector_inv m \<longrightarrow>
      bisector_inv (insert_datum m t x) \<and>
      mset (zip (data_ts (insert_datum m t x)) (data (insert_datum m t x)))
        = add_mset (t, x) (mset (zip (data_ts m) (data m))))"
proof -
  have a: "bisector_inv b \<and> mset (sorted_idc b) = mset [0..<length ts] \<and>
      data_ts b = map (\<lambda>i. ts ! i) (sorted_idc b) \<and> data b = map (\<lambda>i. dat ! i) (sorted_idc b)"
    if h: "Bisector_init dat ts = Inr b"
  proof -
    have "mset (sorted_idc b) = mset [0..<length ts] \<and>
      data_ts b = map (\<lambda>i. ts ! i) (sorted_idc b) \<and> data b = map (\<lambda>i. dat ! i) (sorted_idc b)"
      using h mset_argsort[of ts]
      by (auto simp: Bisector_init_def Let_def split: if_splits)
    with Bisector_init_inv[OF h] show ?thesis by simp
  qed
  have b: "\<exists>e. Bisector_init ([] :: 'a list) [] = Inr e \<and> bisector_inv e \<and> data e = [] \<and> data_ts e = []"
    by (simp add: Bisector_init_def bisector_inv_def)
  have c: "bisector_inv (insert_datum m t x) \<and>
      mset (zip (data_ts (insert_datum m t x)) (data (insert_datum m t x)))
        = add_mset (t, x) (mset (zip (data_ts m) (data m)))" if "bisector_inv m"
    using insert_datum_inv[OF that] insert_datum_mset[OF that] by simp
  from a b c show ?thesis by blast
qed

theorem bisector_invariant_witness:
  "Bisector_init ''abc'' [5, 1, 3] = Inr \<lparr>data = ''bca'', data_ts = [1, 3, 5], sorted_idc = [1, 2, 0]\<rparr>
   \<and> bisector_inv \<lparr>data = ''bca'', data_ts = [1, 3, 5], sorted_idc = [1, 2, 0]\<rparr>
   \<and> insert_datum \<lparr>data = ''bca'', data_ts = [1, 3, 5], sorted_idc = [1, 2, 0]\<rparr> 4 CHR ''d''
       = \<lparr>data = ''bcda'', data_ts = [1, 3, 4, 5], sorted_idc = [1, 2, 0]\<rparr>
   \<and> bisector_inv (insert_datum \<lparr>data = ''bca'', data_ts = [1, 3, 5], sorted_idc = [1, 2, 0]\<rparr> 4 CHR ''d'')"
proof -
  let ?b = "\<lparr>data = ''bca'', data_ts = [1, 3, 5], sorted_idc = [1, 2, 0]\<rparr>"
  have h: "Bisector_init ''abc'' [5, 1, 3] = Inr ?b"
    by (simp add: Bisector_init_def argsort_def Let_def upt_rec)
  have i: "bisector_inv ?b"
    using bisector_invariant[of "''abc''" "[5, 1, 3]" ?b ?b 4 "CHR ''d''"] h by (elim conjE) simp
  have j: "bisector_inv (insert_datum ?b 4 CHR ''d'')"
    using bisector_invariant[of "''abc''" "[5, 1, 3]" ?b ?b 4 "CHR ''d''"] i by (elim conjE) simp
  have "insert_datum ?b 4 CHR ''d'' = \<lparr>data = ''bcda'', data_ts = [1, 3, 4, 5], sorted_idc = [1, 2, 0]\<rparr>"
    by (simp add: insert_datum_def list_insert_def searchsorted_def binsearch.simps Let_def)
  with h i j show ?thesis by simp
qed

section \<open>The claim on the interval index\<close>

text \<open>
  Claim C6, as stated, at an index whose stop array is not ascending: the intervals
  \<open>(0, 100)\<close>, \<open>(10, 15)\<close>, \<open>(20, 25)\<close> and the window \<open>[50, 60)\<close>. The interval
  \<open>(0, 100)\<close> has its stop at or after 50 and its start before 60, but the bisection of the
  stop array \<open>[100, 15, 25]\<close> ends at position 3, not at position 0, the first index whose
  stop is at least 50, and the lookup returns nothing.
\<close>

theorem Affiliator_window_unsorted_stops_counterexample:
  "Affiliator_init ''xyz'' [0, 10, 20] [100, 15, 25]
     = Inr \<lparr>data = ''xyz'', data_ts = [0, 10, 20], sorted_idc = [0, 1, 2], stop_ts = [100, 15, 25]\<rparr>
   \<and> Affiliator_by_ts_window
        \<lparr>data = ''xyz'', data_ts = [0, 10, 20], sorted_idc = [0, 1, 2], stop_ts = [100, 15, 25]\<rparr> (50, 60) = []
   \<and> map fst (filter (\<lambda>(d, s, e). 50 \<le> e \<and> s < 60)
        (intervals \<lparr>data = ''xyz'', data_ts = [0, 10, 20], sorted_idc = [0, 1, 2], stop_ts = [100, 15, 25]\<rparr>)) = ''x''
   \<and> Affiliator_start_stop_idc_for_window
        \<lparr>data = ''xyz'', data_ts = [0, 10, 20], sorted_idc = [0, 1, 2], stop_ts = [100, 15, 25]\<rparr> (50, 60) = (3, 3)
   \<and> length (takeWhile (\<lambda>e. e < 50) [100, 15, 25 :: timestamp]) = 0"
  by (simp add: Affiliator_init_def Bisector_init_def argsort_def upt_rec Let_def
        Affiliator_by_ts_window_def Affiliator_start_stop_idc_for_window_def intervals_def
        slice_def searchsorted_def binsearch.simps)

text \<open>
  Claim C6, amended. For every index built by the constructor whose stop array is ascending
  after the reordering by start, and every window \<open>[a, b)\<close>, the lookup returns exactly the
  intervals with stop at least \<open>a\<close> and start before \<open>b\<close>; the start position is the first index
  whose stop is at least \<open>a\<close>, the end position the first index whose start is at least \<open>b\<close>;
  the intervals of the index are those of the input.
\<close>

theorem Affiliator_window_sorted_stops:
  assumes "Affiliator_init dat starts stops = Inr A" "sorted (stop_ts A)"
  shows "Affiliator_by_ts_window A (a, b)
           = map fst (filter (\<lambda>(d, s, e). a \<le> e \<and> s < b) (intervals A)) \<and>
         Affiliator_start_stop_idc_for_window A (a, b)
           = (length (takeWhile (\<lambda>e. e < a) (stop_ts A)), length (takeWhile (\<lambda>s. s < b) (data_ts A))) \<and>
         mset (intervals A) = mset (zip dat (zip starts stops))"
proof -
  note f = Affiliator_init_fields[OF assms(1)]
  have len: "length (data_ts A) = length (data A)" "length (stop_ts A) = length (data A)"
    by (simp_all add: f(4,5,6))
  have 1: "Affiliator_by_ts_window A (a, b)
           = map fst (filter (\<lambda>(d, s, e). a \<le> e \<and> s < b) (intervals A))"
    by (rule Affiliator_window_filter[OF len f(7) assms(2)])
  have 2: "Affiliator_start_stop_idc_for_window A (a, b)
           = (length (takeWhile (\<lambda>e. e < a) (stop_ts A)), length (takeWhile (\<lambda>s. s < b) (data_ts A)))"
    using searchsorted_takeWhile[OF assms(2), of a] searchsorted_takeWhile[OF f(7), of b]
    by (simp add: Affiliator_start_stop_idc_for_window_def)
  from 1 2 Affiliator_intervals_mset[OF assms(1)] show ?thesis by simp
qed

theorem Affiliator_window_sorted_stops_witness:
  "Affiliator_init ''xyz'' [0, 10, 20] [5, 15, 25]
     = Inr \<lparr>data = ''xyz'', data_ts = [0, 10, 20], sorted_idc = [0, 1, 2], stop_ts = [5, 15, 25]\<rparr>
   \<and> sorted (stop_ts \<lparr>data = ''xyz'', data_ts = [0, 10, 20], sorted_idc = [0, 1, 2], stop_ts = [5, 15, 25]\<rparr>)
   \<and> Affiliator_by_ts_window
        \<lparr>data = ''xyz'', data_ts = [0, 10, 20], sorted_idc = [0, 1, 2], stop_ts = [5, 15, 25]\<rparr> (4, 12) = ''xy''
   \<and> Affiliator_start_stop_idc_for_window
        \<lparr>data = ''xyz'', data_ts = [0, 10, 20], sorted_idc = [0, 1, 2], stop_ts = [5, 15, 25]\<rparr> (4, 12) = (0, 2)"
proof -
  let ?A = "\<lparr>data = ''xyz'', data_ts = [0, 10, 20], sorted_idc = [0, 1, 2], stop_ts = [5, 15, 25]\<rparr>"
  have h: "Affiliator_init ''xyz'' [0, 10, 20] [5, 15, 25] = Inr ?A"
    by (simp add: Affiliator_init_def Bisector_init_def argsort_def upt_rec Let_def)
  have s: "sorted (stop_ts ?A)" by simp
  from Affiliator_window_sorted_stops[OF h s, of 4 12]
  have "Affiliator_by_ts_window ?A (4, 12) = ''xy''"
    and "Affiliator_start_stop_idc_for_window ?A (4, 12) = (0, 2)"
    by (simp_all add: intervals_def)
  with h s show ?thesis by (intro conjI)
qed

section \<open>The claims on frame correlation\<close>

text \<open>
  Claim C5, as stated, at frame timestamps that are not ascending: with frames
  \<open>[0, 100, 0, 2]\<close> the last computable midpoint is 1, and the event at 30, which lies after
  it, is placed in the bucket of frame 0.
\<close>

theorem correlate_data_unsorted_frames_counterexample:
  "data_by_frame (correlate_data [\<lparr>timestamp = 30, payload = ()\<rparr>] [0, 100, 0, 2])
     = [[\<lparr>timestamp = 30, payload = ()\<rparr>], [], [], []]
   \<and> midpoint [0, 100, 0, 2] 2 = 1 \<and> (1 :: timestamp) < 30"
  by (simp add: correlate_data_def correlate_loop.simps Let_def midpoint_def)

text \<open>
  Claim C5, amended. For every events list and every list of frame timestamps,
  \<open>correlate_data\<close> returns one bucket per frame timestamp; the buckets, one after the
  other, are a prefix of the events sorted by timestamp, so no event occurrence is in two
  buckets; an event is in the bucket of frame \<open>f\<close> only if it is at most the midpoint of
  frames \<open>f\<close> and \<open>f + 1\<close> and above every earlier midpoint; the events placed are exactly
  those at most some midpoint. When the frame timestamps are ascending, every event after
  the last midpoint is in no bucket.
\<close>

theorem correlate_data_buckets:
  fixes dat :: "'a datum list"
  shows "length (data_by_frame (correlate_data dat tss)) = length tss \<and>
    (\<exists>k. concat (data_by_frame (correlate_data dat tss)) = take k (sort_key timestamp dat)) \<and>
    mset (concat (data_by_frame (correlate_data dat tss))) \<subseteq># mset dat \<and>
    (\<forall>f<length tss. \<forall>e\<in>set (data_by_frame (correlate_data dat tss) ! f).
        f + 1 < length tss \<and> timestamp e \<le> midpoint tss f \<and> (\<forall>j<f. midpoint tss j < timestamp e)) \<and>
    set (concat (data_by_frame (correlate_data dat tss)))
      = {e \<in> set dat. \<exists>j. j + 1 < length tss \<and> timestamp e \<le> midpoint tss j} \<and>
    (sorted tss \<longrightarrow>
      (\<forall>e\<in>set dat. 2 \<le> length tss \<and> midpoint tss (length tss - 2) < timestamp e \<longrightarrow>
         e \<notin> set (concat (data_by_frame (correlate_data dat tss)))))"
proof -
  let ?R = "data_by_frame (correlate_data dat tss)"
  let ?S = "sort_key timestamp dat"
  obtain fi di where inv: "corr_inv ?S tss fi di ?R"
    and fin: "length dat \<le> di \<or> length tss \<le> fi + 1"
    using correlate_data_final[of dat tss] by blast
  from inv have len: "length ?R = length tss" and cc: "concat ?R = take di ?S"
    and bk: "\<forall>f<length ?R. \<forall>e\<in>set (?R ! f).
        f + 1 < length tss \<and> timestamp e \<le> midpoint tss f \<and> (\<forall>j<f. midpoint tss j < timestamp e)"
    and rest: "\<forall>j<fi. \<forall>d. di \<le> d \<and> d < length ?S \<longrightarrow> midpoint tss j < timestamp (?S ! d)"
    by (simp_all add: corr_inv_def)
  have 2: "\<exists>k. concat ?R = take k ?S" using cc by blast
  have "mset (take di ?S) \<subseteq># mset ?S"
    by (metis append_take_drop_id mset_append mset_subset_eq_add_left)
  then have 3: "mset (concat ?R) \<subseteq># mset dat" using cc by simp
  have 4: "\<forall>f<length tss. \<forall>e\<in>set (?R ! f).
        f + 1 < length tss \<and> timestamp e \<le> midpoint tss f \<and> (\<forall>j<f. midpoint tss j < timestamp e)"
    using bk len by simp
  have 5: "set (concat ?R) = {e \<in> set dat. \<exists>j. j + 1 < length tss \<and> timestamp e \<le> midpoint tss j}"
  proof (intro set_eqI iffI)
    fix e assume e: "e \<in> set (concat ?R)"
    then obtain b where "b \<in> set ?R" "e \<in> set b" by auto
    then obtain f where f: "f < length ?R" "e \<in> set (?R ! f)"
      by (metis in_set_conv_nth)
    then have "f + 1 < length tss \<and> timestamp e \<le> midpoint tss f" using bk by blast
    moreover have "e \<in> set dat"
      using e cc by (metis in_set_takeD set_sort)
    ultimately show "e \<in> {e \<in> set dat. \<exists>j. j + 1 < length tss \<and> timestamp e \<le> midpoint tss j}"
      by blast
  next
    fix e assume "e \<in> {e \<in> set dat. \<exists>j. j + 1 < length tss \<and> timestamp e \<le> midpoint tss j}"
    then obtain j where e: "e \<in> set dat" and j: "j + 1 < length tss" "timestamp e \<le> midpoint tss j"
      by blast
    from e obtain d where d: "d < length ?S" "?S ! d = e"
      by (metis in_set_conv_nth set_sort)
    have "d < di"
    proof (rule ccontr)
      assume "\<not> d < di"
      then have dd: "di \<le> d" by simp
      with d(1) fin have "length tss \<le> fi + 1" by simp
      with j(1) have "j < fi" by simp
      with rest dd d have "midpoint tss j < timestamp e" by blast
      with j(2) show False by simp
    qed
    then have "e \<in> set (take di ?S)" using d by (auto simp: in_set_conv_nth)
    with cc show "e \<in> set (concat ?R)" by simp
  qed
  have 6: "\<forall>e\<in>set dat. 2 \<le> length tss \<and> midpoint tss (length tss - 2) < timestamp e \<longrightarrow>
         e \<notin> set (concat ?R)" if s: "sorted tss"
  proof (intro ballI impI notI)
    fix e assume "e \<in> set dat" and h: "2 \<le> length tss \<and> midpoint tss (length tss - 2) < timestamp e"
      and "e \<in> set (concat ?R)"
    with 5 obtain j where j: "j + 1 < length tss" "timestamp e \<le> midpoint tss j" by blast
    have "midpoint tss j \<le> midpoint tss (length tss - 2)"
      using j(1) h by (intro sorted_midpoint_mono[OF s]) auto
    with j(2) h show False by simp
  qed
  from len 2 3 4 5 6 show ?thesis by blast
qed

theorem correlate_data_buckets_witness:
  "data_by_frame (correlate_data
      [\<lparr>timestamp = 1, payload = ()\<rparr>, \<lparr>timestamp = 6, payload = ()\<rparr>, \<lparr>timestamp = 9, payload = ()\<rparr>,
       \<lparr>timestamp = 14, payload = ()\<rparr>, \<lparr>timestamp = 29, payload = ()\<rparr>, \<lparr>timestamp = 35, payload = ()\<rparr>]
      [0, 10, 20, 30])
   = [[\<lparr>timestamp = 1, payload = ()\<rparr>],
      [\<lparr>timestamp = 6, payload = ()\<rparr>, \<lparr>timestamp = 9, payload = ()\<rparr>, \<lparr>timestamp = 14, payload = ()\<rparr>],
      [], []]
   \<and> sorted [0, 10, 20, 30 :: timestamp]
   \<and> midpoint [0, 10, 20, 30] 2 < 29
   \<and> \<lparr>timestamp = 29, payload = ()\<rparr> \<notin> set (concat (data_by_frame (correlate_data
      [\<lparr>timestamp = 1, payload = ()\<rparr>, \<lparr>timestamp = 6, payload = ()\<rparr>, \<lparr>timestamp = 9, payload = ()\<rparr>,
       \<lparr>timestamp = 14, payload = ()\<rparr>, \<lparr>timestamp = 29, payload = ()\<rparr>, \<lparr>timestamp = 35, payload = ()\<rparr>]
      [0, 10, 20, 30])))"
proof -
  let ?dat = "[\<lparr>timestamp = 1, payload = ()\<rparr>, \<lparr>timestamp = 6, payload = ()\<rparr>, \<lparr>timestamp = 9, payload = ()\<rparr>,
       \<lparr>timestamp = 14, payload = ()\<rparr>, \<lparr>timestamp = 29, payload = ()\<rparr>, \<lparr>timestamp = 35, payload = ()\<rparr>]"
  let ?tss = "[0, 10, 20, 30 :: timestamp]"
  have r: "data_by_frame (correlate_data ?dat ?tss)
   = [[\<lparr>timestamp = 1, payload = ()\<rparr>],
      [\<lparr>timestamp = 6, payload = ()\<rparr>, \<lparr>timestamp = 9, payload = ()\<rparr>, \<lparr>timestamp = 14, payload = ()\<rparr>],
      [], []]"
    by (simp add: correlate_data_def correlate_loop.simps Let_def)
  have s: "sorted ?tss" by simp
  have m: "midpoint ?tss 2 < 29" by (simp add: midpoint_def)
  have "sorted ?tss \<longrightarrow>
      (\<forall>e\<in>set ?dat. 2 \<le> length ?tss \<and> midpoint ?tss (length ?tss - 2) < timestamp e \<longrightarrow>
         e \<notin> set (concat (data_by_frame (correlate_data ?dat ?tss))))"
    using correlate_data_buckets[of ?dat ?tss] by (elim conjE)
  with s have "\<forall>e\<in>set ?dat. 2 \<le> length ?tss \<and> midpoint ?tss (length ?tss - 2) < timestamp e \<longrightarrow>
         e \<notin> set (concat (data_by_frame (correlate_data ?dat ?tss)))" by (rule rev_mp)
  then have "2 \<le> length ?tss \<and> midpoint ?tss (length ?tss - 2) < timestamp \<lparr>timestamp = 29, payload = ()\<rparr> \<longrightarrow>
         \<lparr>timestamp = 29, payload = ()\<rparr> \<notin> set (concat (data_by_frame (correlate_data ?dat ?tss)))"
    by (rule bspec) simp
  moreover have "2 \<le> length ?tss \<and> midpoint ?tss (length ?tss - 2) < timestamp \<lparr>timestamp = 29, payload = ()\<rparr>"
    by (simp add: midpoint_def)
  ultimately have "\<lparr>timestamp = 29, payload = ()\<rparr> \<notin> set (concat (data_by_frame (correlate_data ?dat ?tss)))"
    by (rule mp)
  with r s m show ?thesis by (intro conjI)
qed

text \<open>
  Claim C10. After a call the caller's events list holds the same events, stably sorted
  ascending by timestamp, and the frame timestamps are as they were.
\<close>

theorem correlate_data_mutates:
  fixes dat :: "'a datum list"
  shows "data_after (correlate_data dat tss) = sort_key timestamp dat \<and>
         sorted (map timestamp (data_after (correlate_data dat tss))) \<and>
         mset (data_after (correlate_data dat tss)) = mset dat \<and>
         timestamps_after (correlate_data dat tss) = tss"
  by (simp add: correlate_data_def Let_def)

section \<open>The claims on the migration run\<close>

text \<open>
  The examples below run recordings given by their metadata and files. A run written
  \<open>update_recording_to_recent None\<close> is the module as it stands; a run written
  \<open>update_recording_to_recent (Some declared_version)\<close> is the module with the names of
  \<open>version_utils\<close> bound.
\<close>

text \<open>
  Claim C1, as stated. With the module as it stands, a recording declaring version 1.4
  ends with NameError before any step and the check is not called at all. With the names
  bound, the same recording calls the check first and the version-gated steps to v1.8 and
  to v1.9 after it, and a recording declaring version 0.2 ends in the branch for too old
  recordings, before the check is reached.
\<close>

theorem worldless_check_position_counterexample:
  "calls (update_recording_to_recent None
     \<lparr>info_csv = Some [(''Data Format Version'', ''1.4'')], user_info_csv = None,
      files = [(''world.mp4'', Blob),
               (''pupil_data'', Obj [''pupil_positions'', ''gaze_positions'', ''notifications''])],
      calls = [], raised = None\<rparr>) = []
   \<and> raised (update_recording_to_recent None
     \<lparr>info_csv = Some [(''Data Format Version'', ''1.4'')], user_info_csv = None,
      files = [(''world.mp4'', Blob),
               (''pupil_data'', Obj [''pupil_positions'', ''gaze_positions'', ''notifications''])],
      calls = [], raised = None\<rparr>) = Some NameError
   \<and> calls (update_recording_to_recent (Some declared_version)
     \<lparr>info_csv = Some [(''Data Format Version'', ''1.4'')], user_info_csv = None,
      files = [(''world.mp4'', Blob),
               (''pupil_data'', Obj [''pupil_positions'', ''gaze_positions'', ''notifications''])],
      calls = [], raised = None\<rparr>)
     = [Check_for_worldless_recording, Update_recording_v14_v18, Update_recording_v18_v19]
   \<and> raised (update_recording_to_recent (Some declared_version)
     \<lparr>info_csv = Some [(''Data Format Version'', ''1.4'')], user_info_csv = None,
      files = [(''world.mp4'', Blob),
               (''pupil_data'', Obj [''pupil_positions'', ''gaze_positions'', ''notifications''])],
      calls = [], raised = None\<rparr>) = None
   \<and> calls (update_recording_to_recent (Some declared_version)
     \<lparr>info_csv = Some [(''Data Format Version'', ''0.2'')], user_info_csv = None,
      files = [(''world.mp4'', Blob)],
      calls = [], raised = None\<rparr>)
     = [Update_recording_bytes_to_unicode]"
  by (simp add: update_recording_to_recent_def declared_version_def pv14 pv02 step_defs prim_defs Let_def
        suffix_to_prefix)

text \<open>
  Claim C1, amended. In every run, with or without the names bound and whether it
  completes or not, \<open>check_for_worldless_recording\<close> is called at most once, no step to
  v1.8 or to v1.9 is called before it, and nothing but these two steps is called after it.
  In a run with the names bound that completes, for a declared version of at least 0.3,
  the check is called exactly once: after every version-gated step with a threshold up to
  v1.4 that applies to the version, and before the steps to v1.8 and to v1.9 when they
  apply.
\<close>

theorem worldless_check_position:
  assumes "raised r0 = None" "calls r0 = []" "load_meta_info r0 = Inr m"
    "map_of m ''Data Format Version'' = Some dfv"
  shows "(\<exists>before after.
            prefix (calls (update_recording_to_recent b r0))
              (before @ [Check_for_worldless_recording] @ after)
            \<and> Check_for_worldless_recording \<notin> set before
            \<and> Update_recording_v14_v18 \<notin> set before
            \<and> Update_recording_v18_v19 \<notin> set before
            \<and> set after \<subseteq> {Update_recording_v14_v18, Update_recording_v18_v19})
         \<and> count_list (calls (update_recording_to_recent b r0)) Check_for_worldless_recording \<le> 1
         \<and> (\<forall>rrv v. b = Some rrv \<and> rrv m = Inr v \<and> (0, 3, 0) \<le> v
                \<and> raised (update_recording_to_recent b r0) = None \<longrightarrow>
              count_list (calls (update_recording_to_recent b r0)) Check_for_worldless_recording = 1
              \<and> (\<exists>before.
                    calls (update_recording_to_recent b r0)
                      = before @ [Check_for_worldless_recording]
                        @ (if v < (1, 8, 0) then [Update_recording_v14_v18] else [])
                        @ (if v < (1, 9, 0) then [Update_recording_v18_v19] else [])
                    \<and> filter (\<lambda>s. s \<in> set threshold_steps) before
                        = map snd (filter (\<lambda>(th, s). v < th \<and> th \<le> (1, 4, 0)) threshold_table)))"
proof -
  let ?run = "update_recording_to_recent b r0"
  let ?C = Check_for_worldless_recording
  have A: "\<exists>before after.
            prefix (calls ?run) (before @ [?C] @ after)
            \<and> ?C \<notin> set before
            \<and> Update_recording_v14_v18 \<notin> set before
            \<and> Update_recording_v18_v19 \<notin> set before
            \<and> set after \<subseteq> {Update_recording_v14_v18, Update_recording_v18_v19}"
    using run_calls_cases[OF assms(1,3,4), of b]
  proof
    assume "calls ?run = calls r0"
    then have "prefix (calls ?run) ([] @ [?C] @ [])" using assms(2) by simp
    then show ?thesis by (intro exI[of _ "[]"]) simp
  next
    assume "\<exists>rrv v. b = Some rrv \<and> rrv m = Inr v
              \<and> prefix (calls ?run)
                  (calls r0 @ (if v \<le> (0, 8, 7) then [Update_recording_bytes_to_unicode] else [])
                    @ legacy_calls v
                    @ map snd (filter (\<lambda>(th, s). v < th \<and> th \<le> (1, 4, 0)) threshold_table)
                    @ [?C]
                    @ map snd (filter (\<lambda>(th, s). v < th \<and> (1, 4, 0) < th) threshold_table))"
    then obtain v where
      p: "prefix (calls ?run)
            (((if v \<le> (0, 8, 7) then [Update_recording_bytes_to_unicode] else [])
                @ legacy_calls v
                @ map snd (filter (\<lambda>(th, s). v < th \<and> th \<le> (1, 4, 0)) threshold_table))
             @ [?C]
             @ map snd (filter (\<lambda>(th, s). v < th \<and> (1, 4, 0) < th) threshold_table))"
      unfolding assms(2) by auto
    from p before_check[of v] after_check[of v] show ?thesis by blast
  qed
  have B: "count_list (calls ?run) ?C \<le> 1"
  proof -
    from A obtain before after where
      p: "prefix (calls ?run) (before @ [?C] @ after)" "?C \<notin> set before"
        "set after \<subseteq> {Update_recording_v14_v18, Update_recording_v18_v19}"
      by blast
    from p(3) have "?C \<notin> set after" by auto
    with p(2) have "count_list (before @ [?C] @ after) ?C = 1"
      by (simp add: count_notin)
    with count_list_prefix[OF p(1), of ?C] show ?thesis by simp
  qed
  have C: "count_list (calls ?run) ?C = 1
           \<and> (\<exists>before.
                 calls ?run
                   = before @ [?C]
                     @ (if v < (1, 8, 0) then [Update_recording_v14_v18] else [])
                     @ (if v < (1, 9, 0) then [Update_recording_v18_v19] else [])
                 \<and> filter (\<lambda>s. s \<in> set threshold_steps) before
                     = map snd (filter (\<lambda>(th, s). v < th \<and> th \<le> (1, 4, 0)) threshold_table))"
    if h: "b = Some rrv" "rrv m = Inr v" "raised ?run = None" for rrv v
  proof -
    let ?before = "(if v \<le> (0, 8, 7) then [Update_recording_bytes_to_unicode] else [])
           @ legacy_calls v
           @ map snd (filter (\<lambda>(th, s). v < th \<and> th \<le> (1, 4, 0)) threshold_table)"
    have rn: "raised (update_recording_to_recent (Some rrv) r0) = None"
      using h(1,3) by simp
    have c: "calls ?run
         = ?before @ [?C]
                  @ (if v < (1, 8, 0) then [Update_recording_v14_v18] else [])
                  @ (if v < (1, 9, 0) then [Update_recording_v18_v19] else [])"
      unfolding h(1) run_calls(1)[where rrv=rrv, OF assms(1,3,4) h(2) rn] assms(2) plan_after_14
      by simp
    have nb: "Update_recording_bytes_to_unicode \<notin> set threshold_steps"
      by (simp add: threshold_steps_def threshold_table_def)
    have f: "filter (\<lambda>s. s \<in> set threshold_steps) ?before
                = map snd (filter (\<lambda>(th, s). v < th \<and> th \<le> (1, 4, 0)) threshold_table)"
      using nb by (simp add: filter_threshold_plan filter_threshold_legacy split del: if_split)
    have "count_list ?before ?C = 0"
      using before_check(1)[of v] by (rule count_notin)
    then have n: "count_list (calls ?run) ?C = 1"
      unfolding c by simp
    from n c f show ?thesis by blast
  qed
  from A B C show ?thesis by blast
qed

theorem worldless_check_position_witness:
  "raised (update_recording_to_recent (Some declared_version)
     \<lparr>info_csv = Some [(''Data Format Version'', ''0.9.0'')], user_info_csv = None,
      files = [(''world.mp4'', Blob), (''pupil_data'', Obj [''pupil_positions'', ''gaze_positions''])],
      calls = [], raised = None\<rparr>) = None
   \<and> count_list (calls (update_recording_to_recent (Some declared_version)
     \<lparr>info_csv = Some [(''Data Format Version'', ''0.9.0'')], user_info_csv = None,
      files = [(''world.mp4'', Blob), (''pupil_data'', Obj [''pupil_positions'', ''gaze_positions''])],
      calls = [], raised = None\<rparr>)) Check_for_worldless_recording = 1
   \<and> calls (update_recording_to_recent (Some declared_version)
     \<lparr>info_csv = Some [(''Data Format Version'', ''0.9.0'')], user_info_csv = None,
      files = [(''world.mp4'', Blob), (''pupil_data'', Obj [''pupil_positions'', ''gaze_positions''])],
      calls = [], raised = None\<rparr>)
     = [Update_recording_v087_to_v091, Update_recording_v091_to_v093, Update_recording_v093_to_v094,
        Update_recording_v094_to_v0913, Update_recording_v0913_to_v0915, Update_recording_v0915_v13,
        Update_recording_v13_v14, Check_for_worldless_recording, Update_recording_v14_v18,
        Update_recording_v18_v19]
   \<and> count_list (calls (update_recording_to_recent None
     \<lparr>info_csv = Some [(''Data Format Version'', ''0.9.0'')], user_info_csv = None,
      files = [(''world.mp4'', Blob), (''pupil_data'', Obj [''pupil_positions'', ''gaze_positions''])],
      calls = [], raised = None\<rparr>)) Check_for_worldless_recording \<le> 1"
proof -
  let ?r = "\<lparr>info_csv = Some [(''Data Format Version'', ''0.9.0'')], user_info_csv = None,
      files = [(''world.mp4'', Blob), (''pupil_data'', Obj [''pupil_positions'', ''gaze_positions''])],
      calls = [], raised = None\<rparr>"
  let ?m = "[(''Data Format Version'', ''0.9.0'')]"
  have a: "raised ?r = None" "calls ?r = []" "load_meta_info ?r = Inr ?m"
    "map_of ?m ''Data Format Version'' = Some ''0.9.0''"
    by (simp_all add: load_meta_info_def)
  have v: "declared_version ?m = Inr (0, 9, 0)"
    by (simp add: declared_version_def pv090)
  have b: "raised (update_recording_to_recent (Some declared_version) ?r) = None"
    by (simp add: update_recording_to_recent_def declared_version_def pv090 step_defs prim_defs Let_def
          suffix_to_prefix)
  have c: "calls (update_recording_to_recent (Some declared_version) ?r)
     = [Update_recording_v087_to_v091, Update_recording_v091_to_v093, Update_recording_v093_to_v094,
        Update_recording_v094_to_v0913, Update_recording_v0913_to_v0915, Update_recording_v0915_v13,
        Update_recording_v13_v14, Check_for_worldless_recording, Update_recording_v14_v18,
        Update_recording_v18_v19]"
    by (simp add: update_recording_to_recent_def declared_version_def pv090 step_defs prim_defs Let_def
          suffix_to_prefix)
  have le: "((0, 3, 0) :: VersionFormat) \<le> (0, 9, 0)" by simp
  note t = worldless_check_position[where b="Some declared_version", OF a]
  note s = worldless_check_position[where b=None, OF a]
  from t v le b
  have 1: "count_list (calls (update_recording_to_recent (Some declared_version) ?r))
           Check_for_worldless_recording = 1"
    by blast
  from s
  have 2: "count_list (calls (update_recording_to_recent None ?r)) Check_for_worldless_recording \<le> 1"
    by blast
  from b 1 c 2 show ?thesis by (intro conjI)
qed

text \<open>
  Claim C2, as stated. With the module as it stands, a recording declaring version 0.9.0
  ends before any step, although nine thresholds exceed its version. With the names bound:
  a recording declaring version 0.2 is below all thirteen thresholds and the run calls
  none of the threshold steps; and of two recordings declaring 0.4 and 0.5, both runs
  complete, and the run for 0.5 calls \<open>update_recording_v05_to_v074\<close>, which the run for
  0.4 does not call, so that the steps run for 0.4 are no superset of the steps run for 0.5.
\<close>

theorem migration_steps_follow_plan_counterexample:
  "calls (update_recording_to_recent None
     \<lparr>info_csv = Some [(''Data Format Version'', ''0.9.0'')], user_info_csv = None,
      files = [(''world.mp4'', Blob), (''pupil_data'', Obj [''pupil_positions'', ''gaze_positions''])],
      calls = [], raised = None\<rparr>) = []
   \<and> length (MigrationPlan_compute (0, 9, 0)) = 9
   \<and> calls (update_recording_to_recent (Some declared_version)
     \<lparr>info_csv = Some [(''Data Format Version'', ''0.2'')], user_info_csv = None,
      files = [(''world.mp4'', Blob)],
      calls = [], raised = None\<rparr>)
     = [Update_recording_bytes_to_unicode]
   \<and> MigrationPlan_compute (0, 2, 0) = threshold_steps
   \<and> length threshold_steps = 13
   \<and> calls (update_recording_to_recent (Some declared_version)
     \<lparr>info_csv = Some [(''Data Format Version'', ''0.4'')], user_info_csv = None,
      files = [(''world.mp4'', Blob), (''gaze_positions.npy'', Floats []),
               (''pupil_positions.npy'', Floats [])],
      calls = [], raised = None\<rparr>)
     = [Update_recording_bytes_to_unicode, Update_recording_v04_to_v074,
        Update_recording_v074_to_v082, Update_recording_v082_to_v083, Update_recording_v083_to_v086,
        Update_recording_v086_to_v087, Update_recording_v087_to_v091, Update_recording_v091_to_v093,
        Update_recording_v093_to_v094, Update_recording_v094_to_v0913, Update_recording_v0913_to_v0915,
        Update_recording_v0915_v13, Update_recording_v13_v14, Check_for_worldless_recording,
        Update_recording_v14_v18, Update_recording_v18_v19]
   \<and> raised (update_recording_to_recent (Some declared_version)
     \<lparr>info_csv = Some [(''Data Format Version'', ''0.4'')], user_info_csv = None,
      files = [(''world.mp4'', Blob), (''gaze_positions.npy'', Floats []),
               (''pupil_positions.npy'', Floats [])],
      calls = [], raised = None\<rparr>) = None
   \<and> calls (update_recording_to_recent (Some declared_version)
     \<lparr>info_csv = Some [(''Data Format Version'', ''0.5'')], user_info_csv = None,
      files = [(''world.mp4'', Blob), (''pupil_data'', Obj [''pupil'', ''gaze_positions''])],
      calls = [], raised = None\<rparr>)
     = [Update_recording_bytes_to_unicode, Update_recording_v05_to_v074,
        Update_recording_v074_to_v082, Update_recording_v082_to_v083, Update_recording_v083_to_v086,
        Update_recording_v086_to_v087, Update_recording_v087_to_v091, Update_recording_v091_to_v093,
        Update_recording_v093_to_v094, Update_recording_v094_to_v0913, Update_recording_v0913_to_v0915,
        Update_recording_v0915_v13, Update_recording_v13_v14, Check_for_worldless_recording,
        Update_recording_v14_v18, Update_recording_v18_v19]
   \<and> raised (update_recording_to_recent (Some declared_version)
     \<lparr>info_csv = Some [(''Data Format Version'', ''0.5'')], user_info_csv = None,
      files = [(''world.mp4'', Blob), (''pupil_data'', Obj [''pupil'', ''gaze_positions''])],
      calls = [], raised = None\<rparr>) = None
   \<and> \<not> subseq (calls (update_recording_to_recent (Some declared_version)
     \<lparr>info_csv = Some [(''Data Format Version'', ''0.5'')], user_info_csv = None,
      files = [(''world.mp4'', Blob), (''pupil_data'', Obj [''pupil'', ''gaze_positions''])],
      calls = [], raised = None\<rparr>))
     (calls (update_recording_to_recent (Some declared_version)
     \<lparr>info_csv = Some [(''Data Format Version'', ''0.4'')], user_info_csv = None,
      files = [(''world.mp4'', Blob), (''gaze_positions.npy'', Floats []),
               (''pupil_positions.npy'', Floats [])],
      calls = [], raised = None\<rparr>))"
  by (simp add: update_recording_to_recent_def declared_version_def pv090 pv02 pv04 pv05
        step_defs prim_defs Let_def suffix_to_prefix
        MigrationPlan_compute_def threshold_steps_def threshold_table_def)

text \<open>
  Claim C2, amended. With the names bound, in every run the threshold steps called are,
  in table order, an initial segment of the steps of the table whose threshold exceeds the
  declared version: no applicable step is skipped before a later one is called. The
  thresholds of the table increase strictly. In a run that completes, for a declared
  version of at least 0.3, the threshold steps called are exactly the steps whose threshold
  exceeds the version; and of two such runs with versions \<open>v1 < v2\<close>, the threshold steps
  of the second are a subsequence of those of the first. The conversions to v0.7.4, which
  the run selects by the version and which are no threshold steps, are left out of the
  comparison.
\<close>

theorem migration_steps_follow_plan:
  assumes "raised r1 = None" "calls r1 = []" "load_meta_info r1 = Inr m1"
    "map_of m1 ''Data Format Version'' = Some dfv1" "rrv m1 = Inr v1"
    and "raised r2 = None" "calls r2 = []" "load_meta_info r2 = Inr m2"
    "map_of m2 ''Data Format Version'' = Some dfv2" "rrv m2 = Inr v2"
  shows "prefix (filter (\<lambda>s. s \<in> set threshold_steps) (calls (update_recording_to_recent (Some rrv) r1)))
           (map snd (filter (\<lambda>(threshold, s). v1 < threshold) threshold_table))
     \<and> sorted_wrt (<) (map fst threshold_table)
     \<and> ((0, 3, 0) \<le> v1 \<and> raised (update_recording_to_recent (Some rrv) r1) = None \<longrightarrow>
          filter (\<lambda>s. s \<in> set threshold_steps) (calls (update_recording_to_recent (Some rrv) r1))
            = map snd (filter (\<lambda>(threshold, s). v1 < threshold) threshold_table))
     \<and> ((0, 3, 0) \<le> v1 \<and> v1 < v2
          \<and> raised (update_recording_to_recent (Some rrv) r1) = None
          \<and> raised (update_recording_to_recent (Some rrv) r2) = None \<longrightarrow>
          subseq (filter (\<lambda>s. s \<in> set threshold_steps) (calls (update_recording_to_recent (Some rrv) r2)))
                 (filter (\<lambda>s. s \<in> set threshold_steps) (calls (update_recording_to_recent (Some rrv) r1))))"
proof -
  let ?c1 = "filter (\<lambda>s. s \<in> set threshold_steps) (calls (update_recording_to_recent (Some rrv) r1))"
  let ?c2 = "filter (\<lambda>s. s \<in> set threshold_steps) (calls (update_recording_to_recent (Some rrv) r2))"
  have 1: "prefix ?c1 (map snd (filter (\<lambda>(threshold, s). v1 < threshold) threshold_table))"
    using prefix_filter_threshold[where rrv=rrv and v=v1 and m=m1 and dfv=dfv1, OF assms(1-5)]
    unfolding MigrationPlan_compute_def .
  have 2: "sorted_wrt (<) (map fst threshold_table)"
    by (simp add: threshold_table_def)
  have 3: "?c1 = map snd (filter (\<lambda>(threshold, s). v1 < threshold) threshold_table)"
    if "raised (update_recording_to_recent (Some rrv) r1) = None"
    using run_threshold_calls[where rrv=rrv, OF assms(1-5) that]
    unfolding MigrationPlan_compute_def .
  have 4: "subseq ?c2 ?c1"
    if h: "v1 < v2" "raised (update_recording_to_recent (Some rrv) r1) = None"
      "raised (update_recording_to_recent (Some rrv) r2) = None"
  proof -
    have "subseq (MigrationPlan_compute v2) (MigrationPlan_compute v1)"
      using h(1) by (intro plan_subseq) simp
    then show ?thesis
      unfolding run_threshold_calls[where rrv=rrv, OF assms(1-5) h(2)]
                run_threshold_calls[where rrv=rrv, OF assms(6-10) h(3)] .
  qed
  from 1 2 3 4 show ?thesis by blast
qed

theorem migration_steps_follow_plan_witness:
  "filter (\<lambda>s. s \<in> set threshold_steps) (calls (update_recording_to_recent (Some declared_version)
     \<lparr>info_csv = Some [(''Data Format Version'', ''0.4'')], user_info_csv = None,
      files = [(''world.mp4'', Blob), (''gaze_positions.npy'', Floats []),
               (''pupil_positions.npy'', Floats [])],
      calls = [], raised = None\<rparr>))
   = [Update_recording_v074_to_v082, Update_recording_v082_to_v083, Update_recording_v083_to_v086,
        Update_recording_v086_to_v087, Update_recording_v087_to_v091, Update_recording_v091_to_v093,
        Update_recording_v093_to_v094, Update_recording_v094_to_v0913, Update_recording_v0913_to_v0915,
        Update_recording_v0915_v13, Update_recording_v13_v14, Update_recording_v14_v18,
        Update_recording_v18_v19]
   \<and> subseq (filter (\<lambda>s. s \<in> set threshold_steps) (calls (update_recording_to_recent (Some declared_version)
     \<lparr>info_csv = Some [(''Data Format Version'', ''0.9.0'')], user_info_csv = None,
      files = [(''world.mp4'', Blob), (''pupil_data'', Obj [''pupil_positions'', ''gaze_positions''])],
      calls = [], raised = None\<rparr>)))
     (filter (\<lambda>s. s \<in> set threshold_steps) (calls (update_recording_to_recent (Some declared_version)
     \<lparr>info_csv = Some [(''Data Format Version'', ''0.4'')], user_info_csv = None,
      files = [(''world.mp4'', Blob), (''gaze_positions.npy'', Floats []),
               (''pupil_positions.npy'', Floats [])],
      calls = [], raised = None\<rparr>)))"
proof -
  let ?r1 = "\<lparr>info_csv = Some [(''Data Format Version'', ''0.4'')], user_info_csv = None,
      files = [(''world.mp4'', Blob), (''gaze_positions.npy'', Floats []),
               (''pupil_positions.npy'', Floats [])],
      calls = [], raised = None\<rparr>"
  let ?r2 = "\<lparr>info_csv = Some [(''Data Format Version'', ''0.9.0'')], user_info_csv = None,
      files = [(''world.mp4'', Blob), (''pupil_data'', Obj [''pupil_positions'', ''gaze_positions''])],
      calls = [], raised = None\<rparr>"
  let ?m1 = "[(''Data Format Version'', ''0.4'')]"
  let ?m2 = "[(''Data Format Version'', ''0.9.0'')]"
  have a1: "raised ?r1 = None" "calls ?r1 = []" "load_meta_info ?r1 = Inr ?m1"
    "map_of ?m1 ''Data Format Version'' = Some ''0.4''" "declared_version ?m1 = Inr (0, 4, 0)"
    by (simp_all add: load_meta_info_def declared_version_def pv04)
  have a2: "raised ?r2 = None" "calls ?r2 = []" "load_meta_info ?r2 = Inr ?m2"
    "map_of ?m2 ''Data Format Version'' = Some ''0.9.0''" "declared_version ?m2 = Inr (0, 9, 0)"
    by (simp_all add: load_meta_info_def declared_version_def pv090)
  have b1: "raised (update_recording_to_recent (Some declared_version) ?r1) = None"
    by (simp add: update_recording_to_recent_def declared_version_def pv04 step_defs prim_defs Let_def
          suffix_to_prefix)
  have b2: "raised (update_recording_to_recent (Some declared_version) ?r2) = None"
    by (simp add: update_recording_to_recent_def declared_version_def pv090 step_defs prim_defs Let_def
          suffix_to_prefix)
  have le: "((0, 3, 0) :: VersionFormat) \<le> (0, 4, 0)" "((0, 4, 0) :: VersionFormat) < (0, 9, 0)"
    by simp_all
  note t = migration_steps_follow_plan[where rrv=declared_version, OF a1 a2]
  from t le(1) b1
  have "filter (\<lambda>s. s \<in> set threshold_steps) (calls (update_recording_to_recent (Some declared_version) ?r1))
       = map snd (filter (\<lambda>(threshold, s). (0, 4, 0) < threshold) threshold_table)"
    by blast
  then have 1: "filter (\<lambda>s. s \<in> set threshold_steps) (calls (update_recording_to_recent (Some declared_version) ?r1))
       = [Update_recording_v074_to_v082, Update_recording_v082_to_v083, Update_recording_v083_to_v086,
        Update_recording_v086_to_v087, Update_recording_v087_to_v091, Update_recording_v091_to_v093,
        Update_recording_v093_to_v094, Update_recording_v094_to_v0913, Update_recording_v0913_to_v0915,
        Update_recording_v0915_v13, Update_recording_v13_v14, Update_recording_v14_v18,
        Update_recording_v18_v19]"
    by (simp add: threshold_table_def)
  from t le b1 b2
  have 2: "subseq (filter (\<lambda>s. s \<in> set threshold_steps) (calls (update_recording_to_recent (Some declared_version) ?r2)))
            (filter (\<lambda>s. s \<in> set threshold_steps) (calls (update_recording_to_recent (Some declared_version) ?r1)))"
    by blast
  from 1 2 show ?thesis by (intro conjI)
qed







end
